theory Spec2Isabelle
  imports Main "HOL-Library.AList"
begin

section \<open>JavaScript values\<close>

text \<open>
  The values that flow through the server: what \<open>JSON.parse\<close> yields for a provider
  response, plus \<open>undefined\<close> for an absent property. A string is the list of the bytes of
  its UTF-8 encoding. A JSON number is an integer here (identifiers and counters, within
  the range a JavaScript number counts exactly). In an object an earlier entry shadows a
  later one with the same key. Equality of two values stands for JavaScript's identity
  (\<open>===\<close>, and the key comparison of \<open>Map\<close>), which on objects and arrays is identity of
  reference.
\<close>

datatype jsval =
    JUndefined
  | JNull
  | JBool bool
  | JNum int
  | JStr string
  | JArr "jsval list"
  | JObj "(string \<times> jsval) list"

text \<open>
  The message of an error is a string the code has built, and \<open>substring\<close> can cut a
  surrogate pair: \<open>Torn s\<close> is \<open>s\<close> followed by a lone high surrogate, a string that has
  no UTF-8 form; \<open>Whole s\<close> is the string \<open>s\<close>.
\<close>

datatype js_text = Whole string | Torn string

datatype js_error =
    Error js_text
  | TypeError js_text
  | SyntaxError js_text
  | URIError js_text

fun message :: "js_error \<Rightarrow> js_text" where
  "message (Error m) = m"
| "message (TypeError m) = m"
| "message (SyntaxError m) = m"
| "message (URIError m) = m"

text \<open>\<open>ToBoolean\<close>: what \<open>!v\<close>, \<open>v || w\<close>, \<open>v && w\<close> and \<open>if (v)\<close> test.\<close>

fun truthy :: "jsval \<Rightarrow> bool" where
  "truthy JUndefined = False"
| "truthy JNull = False"
| "truthy (JBool b) = b"
| "truthy (JNum n) = (n \<noteq> 0)"
| "truthy (JStr s) = (s \<noteq> [])"
| "truthy (JArr xs) = True"
| "truthy (JObj fs) = True"

definition js_or :: "jsval \<Rightarrow> jsval \<Rightarrow> jsval" where
  "js_or a b = (if truthy a then a else b)"

definition nullish :: "jsval \<Rightarrow> bool" where
  "nullish v = (v = JUndefined \<or> v = JNull)"

text \<open>
  \<open>v.k\<close> for one of the property names the server reads (\<open>id\<close>, \<open>email\<close>, \<open>name\<close>,
  \<open>username\<close>, \<open>avatar\<close>, \<open>avatarUrl\<close>, \<open>url\<close>, \<open>user\<close>, \<open>user_info\<close>, \<open>profile\<close>,
  \<open>access_token\<close>, \<open>token_type\<close>, \<open>scope\<close>): none of them is a property of an array or
  of a primitive's prototype, so on a boolean, number, string or array the result is
  \<open>undefined\<close>. On \<open>undefined\<close> and \<open>null\<close> the access throws the \<open>TypeError\<close>
  \<open>cannot_read\<close>: the functions below test \<open>nullish\<close> where the code can reach such an
  access.
\<close>

fun get :: "jsval \<Rightarrow> string \<Rightarrow> jsval" where
  "get (JObj fs) k = (case map_of fs k of Some v \<Rightarrow> v | None \<Rightarrow> JUndefined)"
| "get _ k = JUndefined"

definition cannot_read :: "jsval \<Rightarrow> string \<Rightarrow> js_error" where
  "cannot_read v k =
     TypeError (Whole (''Cannot read properties of ''
                       @ (if v = JNull then ''null'' else ''undefined'')
                       @ '' (reading '' @ [CHR 0x27] @ k @ [CHR 0x27] @ '')''))"

text \<open>Optional chaining \<open>v?.k\<close>.\<close>

definition opt_prop :: "jsval \<Rightarrow> string \<Rightarrow> jsval" where
  "opt_prop v k = (if nullish v then JUndefined else get v k)"

section \<open>The user store (server/database.js)\<close>

text \<open>
  A JavaScript \<open>Map\<close> is an association list in insertion order: \<open>set\<close> on a present key
  replaces the value where it stands, on an absent key appends, which is what
  \<open>AList.update\<close> computes. A stored user is a value: the code never changes a user
  object it has stored, it stores a new one. The counter \<open>nextId\<close> is a natural number;
  it stays far below \<open>2^53\<close>, where a JavaScript number stops counting by one.
\<close>

type_synonym ('k, 'v) js_map = "('k \<times> 'v) list"

definition map_get :: "('k, 'v) js_map \<Rightarrow> 'k \<Rightarrow> 'v option" where
  "map_get m k = map_of m k"

definition map_set :: "('k, 'v) js_map \<Rightarrow> 'k \<Rightarrow> 'v \<Rightarrow> ('k, 'v) js_map" where
  "map_set m k v = AList.update k v m"

definition map_delete :: "('k, 'v) js_map \<Rightarrow> 'k \<Rightarrow> ('k, 'v) js_map" where
  "map_delete m k = AList.delete k m"

definition map_size :: "('k, 'v) js_map \<Rightarrow> nat" where
  "map_size m = length m"

definition map_values :: "('k, 'v) js_map \<Rightarrow> 'v list" where
  "map_values m = map snd m"

text \<open>The normalized provider profile that \<open>completeOAuthFlow\<close> hands to the store.\<close>

record sentry_user =
  p_id :: jsval
  p_email :: jsval
  p_name :: jsval
  p_username :: jsval
  p_avatar :: jsval

text \<open>
  The stored user object. The three records nest as the code projects them: \<open>getStats\<close>
  keeps the first five fields, \<open>/api/auth/me\<close> everything but \<open>access_token\<close>.
\<close>

record stats_user =
  id' :: nat
  sentry_id :: jsval
  email :: jsval
  name :: jsval
  created_at :: string

record safe_user = stats_user +
  username :: jsval
  avatar_url :: jsval
  updated_at :: string

record user = safe_user +
  access_token :: jsval

record store =
  users :: "(nat, user) js_map"
  usersBySentryId :: "(jsval, user) js_map"
  usersByEmail :: "(jsval, user) js_map"
  nextId :: nat

definition constructor :: store where
  "constructor = \<lparr>users = [], usersBySentryId = [], usersByEmail = [], nextId = 1\<rparr>"

definition findUserBySentryId :: "store \<Rightarrow> jsval \<Rightarrow> user option" where
  "findUserBySentryId s sentryId = map_get (usersBySentryId s) sentryId"

definition findUserByEmail :: "store \<Rightarrow> jsval \<Rightarrow> user option" where
  "findUserByEmail s e = map_get (usersByEmail s) e"

definition findUserById :: "store \<Rightarrow> nat \<Rightarrow> user option" where
  "findUserById s i = map_get (users s) i"

text \<open>
  \<open>createUser\<close> reads the clock twice (\<open>created_at\<close>, \<open>updated_at\<close>); the two readings are
  the arguments \<open>t1\<close> and \<open>t2\<close>.
\<close>

definition createUser :: "sentry_user \<Rightarrow> jsval \<Rightarrow> string \<Rightarrow> string \<Rightarrow> store \<Rightarrow> user \<times> store" where
  "createUser sentryUser accessToken t1 t2 s =
     (let u = \<lparr>id' = nextId s,
                sentry_id = p_id sentryUser,
                email = p_email sentryUser,
                name = p_name sentryUser,
                created_at = t1,
                username = p_username sentryUser,
                avatar_url = js_or (opt_prop (p_avatar sentryUser) ''avatarUrl'') (p_avatar sentryUser),
                updated_at = t2,
                access_token = accessToken\<rparr>
      in (u, \<lparr>users = map_set (users s) (id' u) u,
              usersBySentryId = map_set (usersBySentryId s) (sentry_id u) u,
              usersByEmail = map_set (usersByEmail s) (email u) u,
              nextId = nextId s + 1\<rparr>))"

definition updateUser :: "sentry_user \<Rightarrow> jsval \<Rightarrow> string \<Rightarrow> store \<Rightarrow> js_error + user \<times> store" where
  "updateUser sentryUser accessToken t s =
     (case map_get (usersBySentryId s) (p_id sentryUser) of
        None \<Rightarrow> Inl (Error (Whole ''User not found for update''))
      | Some existingUser \<Rightarrow>
          (let updatedUser = existingUser
                 \<lparr>email := p_email sentryUser,
                  name := p_name sentryUser,
                  username := p_username sentryUser,
                  avatar_url := js_or (opt_prop (p_avatar sentryUser) ''avatarUrl'') (p_avatar sentryUser),
                  access_token := accessToken,
                  updated_at := t\<rparr>;
               s1 = s\<lparr>users := map_set (users s) (id' updatedUser) updatedUser,
                      usersBySentryId := map_set (usersBySentryId s) (sentry_id updatedUser) updatedUser\<rparr>;
               s2 = (if email existingUser \<noteq> email updatedUser
                     then s1\<lparr>usersByEmail :=
                            map_set (map_delete (usersByEmail s1) (email existingUser))
                                    (email updatedUser) updatedUser\<rparr>
                     else s1)
           in Inr (updatedUser, s2)))"

record stats =
  totalUsers :: nat
  users' :: "stats_user list"

definition getStats :: "store \<Rightarrow> stats" where
  "getStats s =
     \<lparr>totalUsers = map_size (users s),
      users' = map (\<lambda>u. \<lparr>id' = id' u, sentry_id = sentry_id u, email = email u,
                          name = name u, created_at = created_at u\<rparr>)
                   (map_values (users s))\<rparr>"

text \<open>
  The create-or-update dispatch of the callback route (server/index.js, step 4): look the
  profile's id up by Sentry id, update when found, create otherwise.
\<close>

definition upsert :: "sentry_user \<Rightarrow> jsval \<Rightarrow> string \<Rightarrow> string \<Rightarrow> store \<Rightarrow> js_error + user \<times> store" where
  "upsert sentryUser accessToken t1 t2 s =
     (case findUserBySentryId s (p_id sentryUser) of
        Some u \<Rightarrow> updateUser sentryUser accessToken t1 s
      | None \<Rightarrow> Inr (createUser sentryUser accessToken t1 t2 s))"

subsection \<open>Consistency of the three indexes\<close>

text \<open>
  What every state the server can reach satisfies: the primary table \<open>users\<close> is keyed
  by the user's own id, ids are positive and below \<open>nextId\<close>, and the table and the
  Sentry-id index agree on every user. The email index only promises that an entry is filed
  under the email of the record it holds.
\<close>

definition index_inv :: "(nat \<rightharpoonup> user) \<Rightarrow> (jsval \<rightharpoonup> user) \<Rightarrow> (jsval \<rightharpoonup> user) \<Rightarrow> nat \<Rightarrow> bool" where
  "index_inv U S E n \<longleftrightarrow>
     0 < n \<and>
     (\<forall>k u. U k = Some u \<longrightarrow> id' u = k \<and> 0 < k \<and> k < n \<and> S (sentry_id u) = Some u) \<and>
     (\<forall>k u. S k = Some u \<longrightarrow> sentry_id u = k \<and> U (id' u) = Some u) \<and>
     (\<forall>k u. E k = Some u \<longrightarrow> email u = k)"

definition store_inv :: "store \<Rightarrow> bool" where
  "store_inv s \<longleftrightarrow>
     distinct (map fst (users s)) \<and>
     index_inv (map_of (users s)) (map_of (usersBySentryId s)) (map_of (usersByEmail s)) (nextId s)"

inductive reachable :: "store \<Rightarrow> bool" where
  init: "reachable constructor"
| step: "reachable s \<Longrightarrow> upsert sentryUser accessToken t1 t2 s = Inr (u, s') \<Longrightarrow> reachable s'"


text \<open>Erasing the access tokens of a store, to compare two stores up to them.\<close>

definition erase_token :: "user \<Rightarrow> user" where
  "erase_token u = u\<lparr>access_token := JUndefined\<rparr>"

definition erase_tokens :: "store \<Rightarrow> store" where
  "erase_tokens s =
     \<lparr>users = map (\<lambda>(k, u). (k, erase_token u)) (users s),
      usersBySentryId = map (\<lambda>(k, u). (k, erase_token u)) (usersBySentryId s),
      usersByEmail = map (\<lambda>(k, u). (k, erase_token u)) (usersByEmail s),
      nextId = nextId s\<rparr>"


section \<open>Strings, percent-encoding and query strings\<close>

text \<open>
  The platform functions the server calls on strings, written out from their standards
  (ECMAScript for \<open>encodeURIComponent\<close> and the conversion of a number to a string, the URL
  Standard for \<open>URLSearchParams\<close>). They work on the UTF-8 bytes of a string, which is
  how a string is represented here; a string with a lone surrogate, on which
  \<open>encodeURIComponent\<close> throws, has no such representation.
\<close>

definition is_alnum :: "char \<Rightarrow> bool" where
  "is_alnum c =
     (let n = (of_char c :: nat)
      in (48 \<le> n \<and> n \<le> 57) \<or> (65 \<le> n \<and> n \<le> 90) \<or> (97 \<le> n \<and> n \<le> 122))"

definition hex_digit :: "nat \<Rightarrow> char" where
  "hex_digit k = char_of (if k < 10 then 48 + k else 55 + k)"

definition percent :: "char \<Rightarrow> string" where
  "percent c = [CHR ''%'', hex_digit (of_char c div 16), hex_digit (of_char c mod 16)]"

text \<open>The characters \<open>encodeURIComponent\<close> leaves alone: letters, digits and \<open>- _ . ! ~ * ' ( )\<close>.\<close>

definition uri_unreserved :: "char \<Rightarrow> bool" where
  "uri_unreserved c = (is_alnum c \<or> c \<in> set ''-_.!~*()'' \<or> c = CHR 0x27)"

definition encodeURIComponent :: "string \<Rightarrow> string" where
  "encodeURIComponent s = concat (map (\<lambda>c. if uri_unreserved c then [c] else percent c) s)"

text \<open>
  \<open>URLSearchParams.prototype.toString\<close>: the application/x-www-form-urlencoded serializer.
  A space becomes \<open>+\<close>; letters, digits and \<open>* - . _\<close> stay; every other byte is
  percent-encoded; pairs are joined by \<open>&\<close>, name and value by \<open>=\<close>.
\<close>

definition form_safe :: "char \<Rightarrow> bool" where
  "form_safe c = (is_alnum c \<or> c \<in> set ''*-._'')"

definition form_encode_char :: "char \<Rightarrow> string" where
  "form_encode_char c =
     (if c = CHR '' '' then ''+'' else if form_safe c then [c] else percent c)"

definition form_encode :: "string \<Rightarrow> string" where
  "form_encode s = concat (map form_encode_char s)"

fun serialize :: "(string \<times> string) list \<Rightarrow> string" where
  "serialize [] = []"
| "serialize [(k, v)] = form_encode k @ ''='' @ form_encode v"
| "serialize ((k, v) # p # ps) = form_encode k @ ''='' @ form_encode v @ ''&'' @ serialize (p # ps)"

text \<open>
  Reading a URL back, as \<open>new URL(u).searchParams\<close> does: the query is what stands between
  the first \<open>?\<close> and the fragment; it is split at \<open>&\<close>, each non-empty piece at its first
  \<open>=\<close>; in name and value \<open>+\<close> becomes a space and then \<open>%XX\<close> the byte it denotes.
  (The URL parser also drops tabs and line breaks and encodes a few characters of the
  query; a query that \<open>serialize\<close> wrote has none of them.)
\<close>

definition hex_value :: "char \<Rightarrow> nat option" where
  "hex_value c =
     (let n = (of_char c :: nat)
      in if 48 \<le> n \<and> n \<le> 57 then Some (n - 48)
         else if 65 \<le> n \<and> n \<le> 70 then Some (n - 55)
         else if 97 \<le> n \<and> n \<le> 102 then Some (n - 87)
         else None)"

fun percent_decode :: "string \<Rightarrow> string" where
  "percent_decode (a # b # c # rest) =
     (case (a = CHR ''%'', hex_value b, hex_value c) of
        (True, Some h, Some l) \<Rightarrow> char_of (16 * h + l) # percent_decode rest
      | _ \<Rightarrow> a # percent_decode (b # c # rest))"
| "percent_decode s = s"

definition form_decode :: "string \<Rightarrow> string" where
  "form_decode s = percent_decode (map (\<lambda>c. if c = CHR ''+'' then CHR '' '' else c) s)"

function split_on :: "char \<Rightarrow> string \<Rightarrow> string list" where
  "split_on sep s =
     (case dropWhile (\<lambda>c. c \<noteq> sep) s of
        [] \<Rightarrow> [s]
      | _ # rest \<Rightarrow> takeWhile (\<lambda>c. c \<noteq> sep) s # split_on sep rest)"
  by pat_completeness auto
termination
proof (relation "measure (\<lambda>(sep, s). length s)")
  show "wf (measure (\<lambda>(sep, s). length s))" by simp
next
  fix sep :: char and s x rest
  assume "dropWhile (\<lambda>c. c \<noteq> sep) s = x # rest"
  then have "length (dropWhile (\<lambda>c. c \<noteq> sep) s) = Suc (length rest)" by simp
  moreover have "length (dropWhile (\<lambda>c. c \<noteq> sep) s) \<le> length s" by (rule length_dropWhile_le)
  ultimately show "((sep, rest), (sep, s)) \<in> measure (\<lambda>(sep, s). length s)" by simp
qed

declare split_on.simps [simp del]

definition parse_pair :: "string \<Rightarrow> string \<times> string" where
  "parse_pair piece =
     (form_decode (takeWhile (\<lambda>c. c \<noteq> CHR ''='') piece),
      form_decode (drop 1 (dropWhile (\<lambda>c. c \<noteq> CHR ''='') piece)))"

definition parse_query :: "string \<Rightarrow> (string \<times> string) list" where
  "parse_query q = map parse_pair (filter (\<lambda>piece. piece \<noteq> []) (split_on (CHR ''&'') q))"

definition url_query :: "string \<Rightarrow> string" where
  "url_query u = drop 1 (dropWhile (\<lambda>c. c \<noteq> CHR ''?'') (takeWhile (\<lambda>c. c \<noteq> CHR ''#'') u))"

definition searchParams :: "string \<Rightarrow> (string \<times> string) list" where
  "searchParams u = parse_query (url_query u)"

text \<open>\<open>searchParams.get(name)\<close>: the value of the first pair with that name.\<close>

definition params_get :: "(string \<times> string) list \<Rightarrow> string \<Rightarrow> string option" where
  "params_get ps k = map_of ps k"

text \<open>\<open>Array.prototype.join\<close> on strings.\<close>

fun join :: "string \<Rightarrow> string list \<Rightarrow> string" where
  "join sep [] = []"
| "join sep [x] = x"
| "join sep (x # y # ys) = x @ sep @ join sep (y # ys)"

text \<open>
  The decimal digits of a number, as a template literal prints an integer of fewer than
  22 digits.
\<close>

fun digits :: "nat \<Rightarrow> string" where
  "digits n = (if n < 10 then [char_of (48 + n)] else digits (n div 10) @ [char_of (48 + n mod 10)])"

declare digits.simps [simp del]

text \<open>
  \<open>String(v)\<close>, the conversion a template literal applies. An object prints as
  \<open>[object Object]\<close>, unless it has a key \<open>toString\<close> of its own: a parsed value is not a
  function, so the conversion then finds no method that yields a primitive and throws. An
  array prints its elements joined by commas, \<open>undefined\<close> and \<open>null\<close> as nothing, and
  throws where an element does.
\<close>

fun join_comma :: "(js_error + string) list \<Rightarrow> js_error + string" where
  "join_comma [] = Inr []"
| "join_comma [x] = x"
| "join_comma (x # y # ys) =
     (case x of
        Inl e \<Rightarrow> Inl e
      | Inr s \<Rightarrow> (case join_comma (y # ys) of Inl e \<Rightarrow> Inl e | Inr r \<Rightarrow> Inr (s @ '','' @ r)))"

fun to_string :: "jsval \<Rightarrow> js_error + string" where
  "to_string JUndefined = Inr ''undefined''"
| "to_string JNull = Inr ''null''"
| "to_string (JBool b) = Inr (if b then ''true'' else ''false'')"
| "to_string (JNum n) = Inr (if n < 0 then ''-'' @ digits (nat (- n)) else digits (nat n))"
| "to_string (JStr s) = Inr s"
| "to_string (JArr xs) =
     join_comma (map (\<lambda>v. if v = JUndefined \<or> v = JNull then Inr [] else to_string v) xs)"
| "to_string (JObj fs) =
     (case map_of fs ''toString'' of
        Some m \<Rightarrow> Inl (TypeError (Whole ''Cannot convert object to primitive value''))
      | None \<Rightarrow> Inr ''[object Object]'')"

definition printable :: "jsval \<Rightarrow> bool" where
  "printable v = (case to_string v of Inl e \<Rightarrow> False | Inr s \<Rightarrow> True)"

text \<open>
  \<open>s.substring(0, n)\<close>: the first \<open>n\<close> UTF-16 units of \<open>s\<close>, computed on its UTF-8 bytes.
  A byte from \<open>0x80\<close> to \<open>0xBF\<close> continues the character before it; a character that
  starts with a byte from \<open>0xF0\<close> is a surrogate pair and counts two units, every other
  character one. Where only one unit is left for a pair, the result ends in its high
  surrogate alone.
\<close>

fun text_cons :: "char \<Rightarrow> js_text \<Rightarrow> js_text" where
  "text_cons c (Whole s) = Whole (c # s)"
| "text_cons c (Torn s) = Torn (c # s)"

fun text_append :: "string \<Rightarrow> js_text \<Rightarrow> js_text" where
  "text_append p (Whole s) = Whole (p @ s)"
| "text_append p (Torn s) = Torn (p @ s)"

fun substring_0 :: "nat \<Rightarrow> string \<Rightarrow> js_text" where
  "substring_0 n [] = Whole []"
| "substring_0 n (c # s) =
     (if 128 \<le> (of_char c :: nat) \<and> (of_char c :: nat) < 192 then text_cons c (substring_0 n s)
      else if n = 0 then Whole []
      else if 240 \<le> (of_char c :: nat)
           then (if n = 1 then Torn [] else text_cons c (substring_0 (n - 2) s))
      else text_cons c (substring_0 (n - 1) s))"

text \<open>\<open>String(v)\<close> for a configuration value that is a string or \<open>undefined\<close>.\<close>

definition str_or_undefined :: "string option \<Rightarrow> string" where
  "str_or_undefined v = (case v of None \<Rightarrow> ''undefined'' | Some s \<Rightarrow> s)"

text \<open>\<open>process.env.X || d\<close>: an unset or empty variable yields the default.\<close>

definition env_or :: "string option \<Rightarrow> string \<Rightarrow> string" where
  "env_or v d = (case v of None \<Rightarrow> d | Some s \<Rightarrow> if s = [] then d else s)"

text \<open>The characters that delimit a query string and its pairs; an encoder emits none of them.\<close>

definition encoded_char :: "char \<Rightarrow> bool" where
  "encoded_char c \<longleftrightarrow> c \<notin> set ''&=?#''"

section \<open>The OAuth service (class SentryOAuthService, server/services/sentry-api.js)\<close>

record process_env =
  SENTRY_OAUTH_CLIENT_ID :: "string option"
  SENTRY_OAUTH_CLIENT_SECRET :: "string option"
  SENTRY_OAUTH_REDIRECT_URI :: "string option"
  SENTRY_BASE_URL :: "string option"
  FRONTEND_URL :: "string option"

record config =
  clientId :: string
  clientSecret :: string
  redirectUri :: "string option"
  baseUrl :: string

text \<open>The three bytes of the cross mark U+274C that opens two of the service's messages.\<close>

definition cross_mark :: string where
  "cross_mark = [CHR 0xE2, CHR 0x9D, CHR 0x8C]"

text \<open>The constructor: it throws when the client id or the client secret is unset or empty.\<close>

definition new_SentryOAuthService :: "process_env \<Rightarrow> js_error + config" where
  "new_SentryOAuthService env =
     (case (SENTRY_OAUTH_CLIENT_ID env, SENTRY_OAUTH_CLIENT_SECRET env) of
        (Some cid, Some secret) \<Rightarrow>
          if cid = [] \<or> secret = []
          then Inl (Error (Whole (cross_mark @ '' Sentry OAuth credentials not configured! Check your .env file.'')))
          else Inr \<lparr>clientId = cid, clientSecret = secret,
                    redirectUri = SENTRY_OAUTH_REDIRECT_URI env,
                    baseUrl = env_or (SENTRY_BASE_URL env) ''https://sentry.io''\<rparr>
      | _ \<Rightarrow> Inl (Error (Whole (cross_mark @ '' Sentry OAuth credentials not configured! Check your .env file.''))))"

definition scope :: string where
  "scope = join '' '' [''org:read'', ''project:read'', ''team:read'', ''member:read'', ''event:read'']"

definition getAuthorizationUrl :: "config \<Rightarrow> string \<Rightarrow> string" where
  "getAuthorizationUrl cfg state =
     (let params = [(''response_type'', ''code''),
                    (''client_id'', clientId cfg),
                    (''redirect_uri'', str_or_undefined (redirectUri cfg)),
                    (''scope'', scope)];
          params = (if state \<noteq> [] then params @ [(''state'', state)] else params)
      in baseUrl cfg @ ''/oauth/authorize/?'' @ serialize params)"

subsection \<open>Requests to the provider\<close>

text \<open>
  \<open>fetch\<close> is the network: it answers a request with a response or rejects. A response
  carries its body twice, as \<open>text()\<close> reads it and as \<open>json()\<close> parses it; either
  reading can reject (\<open>json()\<close> with a \<open>SyntaxError\<close> when the body is not JSON).
  Every function that calls \<open>fetch\<close> also returns the requests it made, in order.
\<close>

record request =
  req_method :: string
  req_url :: string
  req_headers :: "(string \<times> string) list"
  req_body :: "string option"

record http_response =
  status :: nat
  statusText :: string
  body_text :: "js_error + string"
  body_json :: "js_error + jsval"

datatype fetch_result = Rejected js_error | Resolved http_response

type_synonym fetch = "request \<Rightarrow> fetch_result"

definition ok :: "http_response \<Rightarrow> bool" where
  "ok response = (200 \<le> status response \<and> status response \<le> 299)"

text \<open>
  A failed exchange throws an error whose message holds the status and the whole response
  body. The \<open>catch\<close> of the function rethrows whatever is an \<open>Error\<close>, which every
  failure here is. After \<open>json()\<close> the log lines print \<open>tokenData.token_type\<close> and
  \<open>tokenData.scope\<close>: the read throws on \<open>null\<close>, the printing on a value that cannot be
  converted to a string.
\<close>

definition token_request :: "config \<Rightarrow> string \<Rightarrow> request" where
  "token_request cfg code =
     (let tokenUrl = baseUrl cfg @ ''/oauth/token/'';
          params = [(''grant_type'', ''authorization_code''),
                    (''client_id'', clientId cfg),
                    (''client_secret'', clientSecret cfg),
                    (''code'', code),
                    (''redirect_uri'', str_or_undefined (redirectUri cfg))]
      in \<lparr>req_method = ''POST'', req_url = tokenUrl,
          req_headers = [(''Content-Type'', ''application/x-www-form-urlencoded''),
                         (''Accept'', ''application/json'')],
          req_body = Some (serialize params)\<rparr>)"

definition exchangeCodeForToken :: "config \<Rightarrow> fetch \<Rightarrow> string \<Rightarrow> (js_error + jsval) \<times> request list" where
  "exchangeCodeForToken cfg fetch code =
     (case fetch (token_request cfg code) of
        Rejected e \<Rightarrow> Inl e
      | Resolved response \<Rightarrow>
          if \<not> ok response
          then (case body_text response of
                  Inl e \<Rightarrow> Inl e
                | Inr errorText \<Rightarrow>
                    Inl (Error (Whole (cross_mark @ '' Sentry token exchange failed: ''
                                       @ digits (status response) @ '' '' @ errorText))))
          else (case body_json response of
                  Inl e \<Rightarrow> Inl e
                | Inr tokenData \<Rightarrow>
                    if nullish tokenData then Inl (cannot_read tokenData ''token_type'')
                    else (case to_string (get tokenData ''token_type'') of
                            Inl e \<Rightarrow> Inl e
                          | Inr printed_type \<Rightarrow>
                              (case to_string (get tokenData ''scope'') of
                                 Inl e \<Rightarrow> Inl e
                               | Inr printed_scope \<Rightarrow> Inr tokenData))),
      [token_request cfg code])"

text \<open>
  \<open>d.name || d.username || d.email.split('@')[0]\<close>: the last operand is evaluated only
  when the first two are falsy, and throws when \<open>email\<close> is not a string. The message of
  the \<open>TypeError\<close> names the variable, \<open>userData\<close> in \<open>getUserInfo\<close> and \<open>userInfo\<close> in
  \<open>completeOAuthFlow\<close>.
\<close>

definition default_name :: "string \<Rightarrow> jsval \<Rightarrow> js_error + jsval" where
  "default_name var d =
     (if truthy (get d ''name'') then Inr (get d ''name'')
      else if truthy (get d ''username'') then Inr (get d ''username'')
      else (case get d ''email'' of
              JStr e \<Rightarrow> Inr (JStr (takeWhile (\<lambda>c. c \<noteq> CHR ''@'') e))
            | v \<Rightarrow> if nullish v then Inl (cannot_read v ''split'')
                   else Inl (TypeError (Whole (var @ ''.email.split is not a function'')))))"

definition possibleEndpoints :: "config \<Rightarrow> string list" where
  "possibleEndpoints cfg =
     [baseUrl cfg @ ''/oauth/userinfo'',
      baseUrl cfg @ ''/userinfo'',
      baseUrl cfg @ ''/oauth/userinfo/'',
      baseUrl cfg @ ''/userinfo/'',
      baseUrl cfg @ ''/api/0/user/'',
      baseUrl cfg @ ''/api/0/users/me/'']"

text \<open>The request of one endpoint; \<open>bearer\<close> is the access token as the template literal prints it.\<close>

definition userinfo_request :: "string \<Rightarrow> string \<Rightarrow> request" where
  "userinfo_request bearer userUrl =
     \<lparr>req_method = ''GET'', req_url = userUrl,
      req_headers = [(''Authorization'', ''Bearer '' @ bearer),
                     (''Accept'', ''application/json'')],
      req_body = None\<rparr>"

text \<open>
  The log lines of a successful response, in their order: they print \<open>userData.id\<close>,
  \<open>userData.email\<close>, \<open>userData.name || 'Not provided'\<close> and
  \<open>userData.username || 'Not provided'\<close>. \<open>None\<close> when all four print, otherwise the
  error of the first that throws.
\<close>

definition log_user_data :: "jsval \<Rightarrow> js_error option" where
  "log_user_data userData =
     (if nullish userData then Some (cannot_read userData ''id'')
      else (case to_string (get userData ''id'') of
              Inl e \<Rightarrow> Some e
            | Inr i \<Rightarrow>
                (case to_string (get userData ''email'') of
                   Inl e \<Rightarrow> Some e
                 | Inr m \<Rightarrow>
                     (case to_string (js_or (get userData ''name'') (JStr ''Not provided'')) of
                        Inl e \<Rightarrow> Some e
                      | Inr n \<Rightarrow>
                          (case to_string (js_or (get userData ''username'') (JStr ''Not provided'')) of
                             Inl e \<Rightarrow> Some e
                           | Inr u \<Rightarrow> None)))))"

text \<open>
  One turn of the loop of \<open>getUserInfo\<close>: \<open>Inr\<close> is the \<open>return\<close>, \<open>Inl\<close> the error
  that becomes \<open>lastError\<close> before \<open>continue\<close> (also what the \<open>catch\<close> of the turn
  catches: an access token that cannot be printed into the header, a rejected \<open>fetch\<close>,
  a body that is not JSON, a log line that throws, the failed \<open>split\<close>). The second
  component holds the request, when \<open>fetch\<close> was called.
\<close>

definition try_endpoint :: "fetch \<Rightarrow> jsval \<Rightarrow> string \<Rightarrow> (js_error + sentry_user) \<times> request list" where
  "try_endpoint fetch accessToken userUrl =
     (case to_string accessToken of
        Inl e \<Rightarrow> (Inl e, [])
      | Inr bearer \<Rightarrow>
          (case fetch (userinfo_request bearer userUrl) of
             Rejected e \<Rightarrow> Inl e
           | Resolved response \<Rightarrow>
               if ok response
               then (case body_json response of
                       Inl e \<Rightarrow> Inl e
                     | Inr userData \<Rightarrow>
                         (case log_user_data userData of
                            Some e \<Rightarrow> Inl e
                          | None \<Rightarrow>
                              if \<not> truthy (get userData ''id'') \<or> \<not> truthy (get userData ''email'')
                              then Inl (Error (Whole (''Invalid user data from '' @ userUrl)))
                              else (case default_name ''userData'' userData of
                                      Inl e \<Rightarrow> Inl e
                                    | Inr nm \<Rightarrow>
                                        Inr \<lparr>p_id = get userData ''id'',
                                             p_email = get userData ''email'',
                                             p_name = nm,
                                             p_username = get userData ''username'',
                                             p_avatar =
                                               js_or (opt_prop (get userData ''avatar'') ''avatarUrl'')
                                                 (js_or (opt_prop (get userData ''avatar'') ''url'')
                                                    (get userData ''avatar''))\<rparr>)))
               else (case body_text response of
                       Inl e \<Rightarrow> Inl e
                     | Inr errorText \<Rightarrow>
                         Inl (Error (text_append (digits (status response) @ '': '')
                                       (substring_0 200 errorText)))),
           [userinfo_request bearer userUrl]))"

fun try_endpoints :: "fetch \<Rightarrow> jsval \<Rightarrow> string list \<Rightarrow> js_error option
    \<Rightarrow> (js_error option + sentry_user) \<times> request list" where
  "try_endpoints fetch accessToken [] lastError = (Inl lastError, [])"
| "try_endpoints fetch accessToken (userUrl # rest) lastError =
     (case try_endpoint fetch accessToken userUrl of
        (Inr profile, sent) \<Rightarrow> (Inr profile, sent)
      | (Inl e, sent) \<Rightarrow>
          (case try_endpoints fetch accessToken rest (Some e) of
             (r, reqs) \<Rightarrow> (r, sent @ reqs)))"

text \<open>
  After the loop the error report reads \<open>accessToken.length\<close>, which throws on \<open>undefined\<close>
  and \<open>null\<close> before \<open>finalError\<close> can be thrown.
\<close>

definition getUserInfo :: "config \<Rightarrow> fetch \<Rightarrow> jsval \<Rightarrow> (js_error + sentry_user) \<times> request list" where
  "getUserInfo cfg fetch accessToken =
     (case try_endpoints fetch accessToken (possibleEndpoints cfg) None of
        (Inr profile, reqs) \<Rightarrow> (Inr profile, reqs)
      | (Inl lastError, reqs) \<Rightarrow>
          (let finalError = (case lastError of
                               Some e \<Rightarrow> e
                             | None \<Rightarrow> Error (Whole ''All Sentry user endpoints failed''))
           in if nullish accessToken
              then (Inl (cannot_read accessToken ''length''), reqs)
              else (Inl finalError, reqs)))"

text \<open>
  \<open>tokenResponse.user || tokenResponse.user_info || tokenResponse.profile\<close>: the first
  truthy one of the three fields, or the last when none is.
\<close>

definition embedded :: "jsval \<Rightarrow> jsval" where
  "embedded tokenResponse =
     js_or (get tokenResponse ''user'')
       (js_or (get tokenResponse ''user_info'') (get tokenResponse ''profile''))"

text \<open>The test of the fast path: the embedded value, its \<open>id\<close> and its \<open>email\<close> are truthy.\<close>

definition embeds_usable :: "jsval \<Rightarrow> bool" where
  "embeds_usable tokenResponse =
     (truthy (embedded tokenResponse) \<and> truthy (get (embedded tokenResponse) ''id'') \<and>
      truthy (get (embedded tokenResponse) ''email''))"

definition completeOAuthFlow :: "config \<Rightarrow> fetch \<Rightarrow> string
    \<Rightarrow> (js_error + sentry_user \<times> jsval) \<times> request list" where
  "completeOAuthFlow cfg fetch code =
     (case exchangeCodeForToken cfg fetch code of
        (Inl e, reqs) \<Rightarrow> (Inl e, reqs)
      | (Inr tokenResponse, reqs) \<Rightarrow>
          if nullish tokenResponse then (Inl (cannot_read tokenResponse ''user''), reqs)
          else if embeds_usable tokenResponse
          then (let userInfo = embedded tokenResponse
                in case default_name ''userInfo'' userInfo of
                     Inl e \<Rightarrow> (Inl e, reqs)
                   | Inr nm \<Rightarrow>
                       (Inr (\<lparr>p_id = get userInfo ''id'',
                              p_email = get userInfo ''email'',
                              p_name = nm,
                              p_username = get userInfo ''username'',
                              p_avatar = get userInfo ''avatar''\<rparr>,
                             get tokenResponse ''access_token''), reqs))
          else (case getUserInfo cfg fetch (get tokenResponse ''access_token'') of
                  (Inl e, reqs') \<Rightarrow> (Inl e, reqs @ reqs')
                | (Inr user, reqs') \<Rightarrow>
                    (Inr (user, get tokenResponse ''access_token''), reqs @ reqs')))"






section \<open>The routes (server/index.js)\<close>

text \<open>
  The session of one browser holds the three keys the routes write. A query parameter is
  a string or absent. \<open>session.destroy()\<close> succeeds and leaves the browser with an empty
  session. Of the console output only the template literals that can throw are kept.
\<close>

record session =
  oauthState :: "string option"
  userId :: "nat option"
  sentryId :: "jsval option"

record query =
  code :: "string option"
  state :: "string option"

definition empty_session :: session where
  "empty_session = \<lparr>oauthState = None, userId = None, sentryId = None\<rparr>"

datatype body =
    ErrorBody string
  | UserBody safe_user
  | AuthUrlBody string
  | MessageBody string
  | StatsBody string stats

text \<open>
  \<open>Json n b\<close> is \<open>res.status(n).json(b)\<close>; \<open>Redirect u\<close> is \<open>res.redirect(u)\<close>.
  \<open>Unanswered e\<close> is a handler that throws \<open>e\<close> without having called either: the
  handler has sent no response.
\<close>

datatype response = Json nat body | Redirect string | Unanswered js_error

definition frontendUrl :: "process_env \<Rightarrow> string" where
  "frontendUrl env = env_or (FRONTEND_URL env) ''http://localhost:5173''"

text \<open>The middleware \<open>requireAuth\<close> lets a request through when \<open>session.userId\<close> is truthy.\<close>

definition requireAuth :: "session \<Rightarrow> bool" where
  "requireAuth sess = (case userId sess of None \<Rightarrow> False | Some i \<Rightarrow> i \<noteq> 0)"

text \<open>
  \<open>GET /api/auth/me\<close>. Its log line prints the Sentry id of the stored user, which the
  callback has printed before it stored the user: in the stores the callback builds,
  every Sentry id prints (\<open>printable_ids\<close>).
\<close>

definition printable_ids :: "store \<Rightarrow> bool" where
  "printable_ids db = list_all (\<lambda>u. printable (sentry_id u)) (map_values (users db))"

definition auth_me :: "store \<Rightarrow> session \<Rightarrow> response \<times> session" where
  "auth_me db sess =
     (case userId sess of
        None \<Rightarrow> (Json 401 (ErrorBody ''Authentication required''), sess)
      | Some i \<Rightarrow>
          if \<not> requireAuth sess then (Json 401 (ErrorBody ''Authentication required''), sess)
          else (case findUserById db i of
                  None \<Rightarrow> (Json 401 (ErrorBody ''User not found''), empty_session)
                | Some user \<Rightarrow> (Json 200 (UserBody (safe_user.truncate user)), sess)))"

text \<open>\<open>GET /api/auth/login\<close>; the fresh \<open>uuidv4()\<close> is the argument \<open>uuid\<close>.\<close>

definition auth_login :: "config \<Rightarrow> string \<Rightarrow> session \<Rightarrow> response \<times> session" where
  "auth_login cfg uuid sess =
     (Json 200 (AuthUrlBody (getAuthorizationUrl cfg uuid)), sess\<lparr>oauthState := Some uuid\<rparr>)"

text \<open>
  \<open>GET /api/auth/callback\<close>. The result holds the response, the session and the store
  after the request, and the requests sent to the provider. \<open>t1\<close> and \<open>t2\<close> are the
  readings of the clock the store takes.
\<close>

record callback_result =
  res :: response
  session_after :: session
  store_after :: store
  requests :: "request list"

text \<open>
  The \<open>catch\<close> of the callback redirects to the error page with
  \<open>encodeURIComponent(error.message)\<close>, which throws a \<open>URIError\<close> on a lone surrogate;
  the throw is inside the \<open>catch\<close>, so nothing catches it.
\<close>

definition error_redirect :: "process_env \<Rightarrow> js_error \<Rightarrow> response" where
  "error_redirect env e =
     (case message e of
        Whole m \<Rightarrow> Redirect (frontendUrl env @ ''/auth/error?message='' @ encodeURIComponent m)
      | Torn m \<Rightarrow> Unanswered (URIError (Whole ''URI malformed'')))"

text \<open>
  The log lines of the callback after the flow has returned print \<open>sentryUser.id\<close>,
  \<open>sentryUser.email\<close> and \<open>sentryUser.name\<close>, in this order, before the store is
  touched. \<open>None\<close> when all three print, otherwise the error of the first that throws.
\<close>

definition log_sentry_user :: "sentry_user \<Rightarrow> js_error option" where
  "log_sentry_user sentryUser =
     (case to_string (p_id sentryUser) of
        Inl e \<Rightarrow> Some e
      | Inr i \<Rightarrow>
          (case to_string (p_email sentryUser) of
             Inl e \<Rightarrow> Some e
           | Inr m \<Rightarrow>
               (case to_string (p_name sentryUser) of
                  Inl e \<Rightarrow> Some e
                | Inr n \<Rightarrow> None)))"

text \<open>The state check \<open>!state || state !== req.session.oauthState\<close>.\<close>

definition invalid_state :: "query \<Rightarrow> session \<Rightarrow> bool" where
  "invalid_state q sess =
     (case state q of None \<Rightarrow> True | Some st \<Rightarrow> st = [] \<or> Some st \<noteq> oauthState sess)"

definition auth_callback :: "process_env \<Rightarrow> config \<Rightarrow> fetch \<Rightarrow> string \<Rightarrow> string
    \<Rightarrow> query \<Rightarrow> store \<Rightarrow> session \<Rightarrow> callback_result" where
  "auth_callback env cfg fetch t1 t2 q db sess =
     (if invalid_state q sess
      then \<lparr>res = Json 400 (ErrorBody ''Invalid state parameter''),
            session_after = sess, store_after = db, requests = []\<rparr>
      else
        (let sess1 = sess\<lparr>oauthState := None\<rparr>
         in (case code q of
               None \<Rightarrow>
                 \<lparr>res = Json 400 (ErrorBody ''Authorization code not provided''),
                  session_after = sess1, store_after = db, requests = []\<rparr>
             | Some c \<Rightarrow>
                 if c = []
                 then \<lparr>res = Json 400 (ErrorBody ''Authorization code not provided''),
                       session_after = sess1, store_after = db, requests = []\<rparr>
                 else
                   (case completeOAuthFlow cfg fetch c of
                      (Inl e, reqs) \<Rightarrow>
                        \<lparr>res = error_redirect env e,
                         session_after = sess1, store_after = db, requests = reqs\<rparr>
                    | (Inr (sentryUser, accessToken), reqs) \<Rightarrow>
                        (case log_sentry_user sentryUser of
                           Some e \<Rightarrow>
                             \<lparr>res = error_redirect env e,
                              session_after = sess1, store_after = db, requests = reqs\<rparr>
                         | None \<Rightarrow>
                             (case upsert sentryUser accessToken t1 t2 db of
                                Inl e \<Rightarrow>
                                  \<lparr>res = error_redirect env e,
                                   session_after = sess1, store_after = db, requests = reqs\<rparr>
                              | Inr (user, db') \<Rightarrow>
                                  \<lparr>res = Redirect (frontendUrl env @ ''/auth/success''),
                                   session_after = sess1\<lparr>userId := Some (id' user),
                                                           sentryId := Some (p_id sentryUser)\<rparr>,
                                   store_after = db', requests = reqs\<rparr>))))))"

text \<open>\<open>POST /api/auth/logout\<close> and \<open>GET /api/demo/stats\<close>.\<close>

definition auth_logout :: "session \<Rightarrow> response \<times> session" where
  "auth_logout sess = (Json 200 (MessageBody ''Logged out successfully''), empty_session)"

definition demo_stats :: "store \<Rightarrow> response" where
  "demo_stats db = Json 200 (StatsBody ''Sentry OAuth Demo - User Storage Stats'' (getStats db))"

section \<open>Sample data\<close>

text \<open>
  Two provider profiles that share an email address, the store after the first of them
  has logged in, and a session bound to that user. The theorems below are instantiated
  on them.
\<close>

definition alice :: sentry_user where
  "alice = \<lparr>p_id = JStr ''42'', p_email = JStr ''a@b.com'', p_name = JStr ''a'',
            p_username = JUndefined, p_avatar = JUndefined\<rparr>"

definition bob :: sentry_user where
  "bob = \<lparr>p_id = JStr ''43'', p_email = JStr ''a@b.com'', p_name = JStr ''Bob'',
          p_username = JStr ''bob'', p_avatar = JUndefined\<rparr>"

definition alice_user :: user where
  "alice_user = \<lparr>id' = 1, sentry_id = JStr ''42'', email = JStr ''a@b.com'', name = JStr ''a'',
                 created_at = ''2024-01-01T00:00:00.000Z'', username = JUndefined,
                 avatar_url = JUndefined, updated_at = ''2024-01-01T00:00:00.000Z'',
                 access_token = JStr ''T''\<rparr>"

definition store1 :: store where
  "store1 = \<lparr>users = [(1, alice_user)],
             usersBySentryId = [(JStr ''42'', alice_user)],
             usersByEmail = [(JStr ''a@b.com'', alice_user)],
             nextId = 2\<rparr>"

text \<open>A configured service, a network that is down, and a provider that refuses the code.\<close>

definition sample_env :: process_env where
  "sample_env = \<lparr>SENTRY_OAUTH_CLIENT_ID = Some ''cid'',
                  SENTRY_OAUTH_CLIENT_SECRET = Some ''secret'',
                  SENTRY_OAUTH_REDIRECT_URI = Some ''http://localhost:3001/api/auth/callback'',
                  SENTRY_BASE_URL = None,
                  FRONTEND_URL = None\<rparr>"

definition sample_config :: config where
  "sample_config = \<lparr>clientId = ''cid'', clientSecret = ''secret'',
                     redirectUri = Some ''http://localhost:3001/api/auth/callback'',
                     baseUrl = ''https://sentry.io''\<rparr>"

definition offline :: fetch where
  "offline req = Rejected (TypeError (Whole ''fetch failed''))"

definition refuses :: "string \<Rightarrow> fetch" where
  "refuses b req =
     Resolved \<lparr>status = 400, statusText = ''Bad Request'', body_text = Inr b,
               body_json = Inl (SyntaxError (Whole ''Unexpected token''))\<rparr>"

definition pending :: session where
  "pending = \<lparr>oauthState = Some ''S'', userId = None, sentryId = None\<rparr>"





text \<open>
  A provider that exchanges the code for a bare access token and answers 500 on every
  profile endpoint, with a body of 199 letters followed by the character U+1F600, which
  takes two UTF-16 units: \<open>substring(0, 200)\<close> keeps the first of the two.
\<close>

definition long_body :: string where
  "long_body = replicate 199 (CHR ''a'') @ [CHR 0xF0, CHR 0x9F, CHR 0x98, CHR 0x80]"

definition cuts_pair :: fetch where
  "cuts_pair req =
     (if req_method req = ''POST''
      then Resolved \<lparr>status = 200, statusText = ''OK'', body_text = Inr [],
                     body_json = Inr (JObj [(''access_token'', JStr ''T'')])\<rparr>
      else Resolved \<lparr>status = 500, statusText = ''Internal Server Error'',
                     body_text = Inr long_body,
                     body_json = Inl (SyntaxError (Whole ''Unexpected token''))\<rparr>)"

text \<open>A provider that embeds \<open>{id: 1, email: 5}\<close> under \<open>user\<close> in its token response.\<close>

definition embeds_numeric_email :: fetch where
  "embeds_numeric_email req =
     (if req_method req = ''POST''
      then Resolved \<lparr>status = 200, statusText = ''OK'', body_text = Inr [],
                     body_json = Inr (JObj [(''access_token'', JStr ''T''),
                                           (''user'', JObj [(''id'', JNum 1),
                                                           (''email'', JNum 5)])])\<rparr>
      else Resolved \<lparr>status = 404, statusText = ''Not Found'', body_text = Inr ''not found'',
                     body_json = Inl (SyntaxError (Whole ''Unexpected token''))\<rparr>)"

section \<open>Properties of the user store\<close>

lemma length_update:
  "length (AList.update k v al) = (if k \<in> fst ` set al then length al else Suc (length al))"
  by (induction al) auto

lemma index_invD:
  assumes "index_inv U S E n"
  shows "0 < n"
    and "\<And>k v. U k = Some v \<Longrightarrow> id' v = k"
    and "\<And>k v. U k = Some v \<Longrightarrow> 0 < k"
    and "\<And>k v. U k = Some v \<Longrightarrow> k < n"
    and "\<And>k v. U k = Some v \<Longrightarrow> S (sentry_id v) = Some v"
    and "\<And>k v. S k = Some v \<Longrightarrow> sentry_id v = k"
    and "\<And>k v. S k = Some v \<Longrightarrow> U (id' v) = Some v"
    and "\<And>k v. E k = Some v \<Longrightarrow> email v = k"
  using assms unfolding index_inv_def by blast+

lemma index_invI:
  assumes "0 < n"
    and "\<And>k v. U k = Some v \<Longrightarrow> id' v = k"
    and "\<And>k v. U k = Some v \<Longrightarrow> 0 < k"
    and "\<And>k v. U k = Some v \<Longrightarrow> k < n"
    and "\<And>k v. U k = Some v \<Longrightarrow> S (sentry_id v) = Some v"
    and "\<And>k v. S k = Some v \<Longrightarrow> sentry_id v = k"
    and "\<And>k v. S k = Some v \<Longrightarrow> U (id' v) = Some v"
    and "\<And>k v. E k = Some v \<Longrightarrow> email v = k"
  shows "index_inv U S E n"
  using assms unfolding index_inv_def by blast

lemma index_inv_create:
  assumes inv: "index_inv U S E n" and fresh: "S (sentry_id u) = None"
    and idn: "id' u = n" and em: "email u = e"
  shows "index_inv (U(n \<mapsto> u)) (S(sentry_id u \<mapsto> u)) (E(e \<mapsto> u)) (Suc n)"
proof (rule index_invI)
  note D = index_invD[OF inv]
  show "0 < Suc n" by simp
  fix k v
  {
    assume a: "(U(n \<mapsto> u)) k = Some v"
    show "id' v = k" using a D(2) idn by (cases "k = n") auto
    show "0 < k" using a D(1,3) by (cases "k = n") auto
    show "k < Suc n" using a D(4)[of k v] by (cases "k = n") auto
    show "(S(sentry_id u \<mapsto> u)) (sentry_id v) = Some v"
    proof (cases "k = n")
      case True
      with a show ?thesis by simp
    next
      case False
      with a have "S (sentry_id v) = Some v" using D(5)[of k v] by simp
      moreover from this fresh have "sentry_id v \<noteq> sentry_id u" by auto
      ultimately show ?thesis by simp
    qed
  }
  {
    assume a: "(S(sentry_id u \<mapsto> u)) k = Some v"
    show "sentry_id v = k" using a D(6) by (cases "k = sentry_id u") auto
    show "(U(n \<mapsto> u)) (id' v) = Some v"
    proof (cases "k = sentry_id u")
      case True
      with a idn show ?thesis by simp
    next
      case False
      with a have "U (id' v) = Some v" using D(7)[of k v] by simp
      moreover from this have "id' v \<noteq> n" using D(4)[of "id' v" v] by auto
      ultimately show ?thesis by simp
    qed
  }
  {
    assume a: "(E(e \<mapsto> u)) k = Some v"
    show "email v = k" using a D(8) em by (cases "k = e") auto
  }
qed

lemma index_inv_update:
  assumes inv: "index_inv U S E n" and old: "S k0 = Some old"
    and idn: "id' u = id' old" and sid: "sentry_id u = sentry_id old"
  shows "index_inv (U(id' u \<mapsto> u)) (S(sentry_id u \<mapsto> u)) E n"
proof (rule index_invI)
  note D = index_invD[OF inv]
  have k0: "sentry_id old = k0" and Uold: "U (id' old) = Some old"
    using D(6)[OF old] D(7)[OF old] by simp_all
  then have Sold: "S (sentry_id old) = Some old" using old by simp
  show "0 < n" by (rule D(1))
  fix k v
  {
    assume a: "(U(id' u \<mapsto> u)) k = Some v"
    show "id' v = k" using a D(2) by (cases "k = id' u") auto
    show "0 < k" using a D(3)[of k v] D(3)[OF Uold] idn by (cases "k = id' u") auto
    show "k < n" using a D(4)[of k v] D(4)[OF Uold] idn by (cases "k = id' u") auto
    show "(S(sentry_id u \<mapsto> u)) (sentry_id v) = Some v"
    proof (cases "k = id' u")
      case True
      with a show ?thesis by simp
    next
      case False
      with a have kv: "U k = Some v" by simp
      then have Sv: "S (sentry_id v) = Some v" by (rule D(5))
      have "sentry_id v \<noteq> sentry_id old"
      proof
        assume "sentry_id v = sentry_id old"
        with Sv Sold have "v = old" by (metis option.inject)
        with D(2)[OF kv] False idn show False by simp
      qed
      with Sv sid show ?thesis by simp
    qed
  }
  {
    assume a: "(S(sentry_id u \<mapsto> u)) k = Some v"
    show "sentry_id v = k" using a D(6) by (cases "k = sentry_id u") auto
    show "(U(id' u \<mapsto> u)) (id' v) = Some v"
    proof (cases "k = sentry_id u")
      case True
      with a show ?thesis by simp
    next
      case False
      with a have kv: "S k = Some v" by simp
      then have Uv: "U (id' v) = Some v" by (rule D(7))
      have "id' v \<noteq> id' old"
      proof
        assume "id' v = id' old"
        with Uv Uold have "v = old" by (metis option.inject)
        with D(6)[OF kv] False sid show False by simp
      qed
      with Uv idn show ?thesis by simp
    qed
  }
  {
    assume "E k = Some v"
    then show "email v = k" by (rule D(8))
  }
qed

lemma index_inv_email:
  assumes inv: "index_inv U S E n" and em: "email u = e"
  shows "index_inv U S ((E(e0 := None))(e \<mapsto> u)) n"
  using assms unfolding index_inv_def by (auto split: if_splits)

lemma store_inv_constructor: "store_inv constructor"
  by (simp add: store_inv_def constructor_def index_inv_def)

lemma store_inv_createUser:
  assumes inv: "store_inv s" and fresh: "findUserBySentryId s (p_id p) = None"
  shows "store_inv (snd (createUser p tok t1 t2 s))"
proof -
  obtain u s' where cu: "createUser p tok t1 t2 s = (u, s')" by (cases "createUser p tok t1 t2 s")
  then have u: "id' u = nextId s" "sentry_id u = p_id p" "email u = p_email p"
    and s': "users s' = AList.update (nextId s) u (users s)"
            "usersBySentryId s' = AList.update (p_id p) u (usersBySentryId s)"
            "usersByEmail s' = AList.update (p_email p) u (usersByEmail s)"
            "nextId s' = Suc (nextId s)"
    by (auto simp: createUser_def Let_def map_set_def)
  from fresh u have "map_of (usersBySentryId s) (sentry_id u) = None"
    by (simp add: findUserBySentryId_def map_get_def)
  with inv u have "index_inv ((map_of (users s))(nextId s \<mapsto> u))
      ((map_of (usersBySentryId s))(sentry_id u \<mapsto> u))
      ((map_of (usersByEmail s))(p_email p \<mapsto> u)) (Suc (nextId s))"
    by (intro index_inv_create) (simp_all add: store_inv_def)
  with inv u s' have "store_inv s'"
    by (simp add: store_inv_def update_conv' distinct_update)
  with cu show ?thesis by simp
qed

lemma store_inv_updateUser:
  assumes inv: "store_inv s" and up: "updateUser p tok t s = Inr (u, s')"
  shows "store_inv s'"
proof -
  from up obtain old where old: "map_of (usersBySentryId s) (p_id p) = Some old"
    by (auto simp: updateUser_def map_get_def split: option.splits)
  with up have u: "id' u = id' old" "sentry_id u = sentry_id old"
    and s': "users s' = AList.update (id' u) u (users s)"
            "usersBySentryId s' = AList.update (sentry_id u) u (usersBySentryId s)"
            "nextId s' = nextId s"
    and em: "usersByEmail s' = usersByEmail s \<or>
             usersByEmail s' = AList.update (email u) u (AList.delete (email old) (usersByEmail s))"
    by (auto simp: updateUser_def Let_def map_set_def map_get_def map_delete_def split: if_splits)
  from inv have "index_inv (map_of (users s)) (map_of (usersBySentryId s))
      (map_of (usersByEmail s)) (nextId s)"
    by (simp add: store_inv_def)
  from index_inv_update[OF this old u]
  have 1: "index_inv ((map_of (users s))(id' u \<mapsto> u))
      ((map_of (usersBySentryId s))(sentry_id u \<mapsto> u)) (map_of (usersByEmail s)) (nextId s)" .
  from index_inv_email[OF 1 refl, of "email old"]
  have 2: "index_inv ((map_of (users s))(id' u \<mapsto> u))
      ((map_of (usersBySentryId s))(sentry_id u \<mapsto> u))
      (((map_of (usersByEmail s))(email old := None))(email u \<mapsto> u)) (nextId s)" .
  from em show ?thesis
  proof
    assume "usersByEmail s' = usersByEmail s"
    with inv s' 1 show ?thesis by (simp add: store_inv_def update_conv' distinct_update)
  next
    assume "usersByEmail s' = AList.update (email u) u (AList.delete (email old) (usersByEmail s))"
    with inv s' 2 show ?thesis
      by (simp add: store_inv_def update_conv' delete_conv' distinct_update)
  qed
qed

lemma store_inv_upsert:
  assumes "store_inv s" and "upsert p tok t1 t2 s = Inr (u, s')"
  shows "store_inv s'"
  using assms store_inv_createUser[of s p tok t1 t2] store_inv_updateUser[of s p tok t1 u s']
  by (auto simp: upsert_def split: option.splits)

lemma reachable_store_inv: "reachable s \<Longrightarrow> store_inv s"
  by (induction rule: reachable.induct) (auto intro: store_inv_constructor store_inv_upsert)


lemma upsert_total: "\<exists>u s'. upsert p tok t1 t2 s = Inr (u, s')"
  by (auto simp: upsert_def updateUser_def createUser_def findUserBySentryId_def Let_def
      split: option.splits)

lemma reachable_upsert:
  "reachable s \<Longrightarrow> upsert p tok t1 t2 s = Inr (u, s') \<Longrightarrow> reachable s'"
  by (rule reachable.step)

lemma upsert_finds:
  assumes inv: "store_inv s" and up: "upsert p tok t1 t2 s = Inr (u, s')"
  shows "findUserBySentryId s' (p_id p) = Some u" and "findUserById s' (id' u) = Some u"
    and "sentry_id u = p_id p"
proof -
  note D = index_invD[OF inv[unfolded store_inv_def, THEN conjunct2]]
  show "findUserBySentryId s' (p_id p) = Some u"
    using up D(6)[of "p_id p"]
    by (auto simp: upsert_def updateUser_def createUser_def findUserBySentryId_def Let_def
        map_get_def map_set_def update_conv' split: option.splits if_splits)
  show "findUserById s' (id' u) = Some u"
    using up
    by (auto simp: upsert_def updateUser_def createUser_def findUserById_def Let_def
        map_get_def map_set_def update_conv' split: option.splits if_splits)
  show "sentry_id u = p_id p"
    using up D(6)[of "p_id p"]
    by (auto simp: upsert_def updateUser_def createUser_def findUserBySentryId_def Let_def
        map_get_def split: option.splits if_splits)
qed

lemma upsert_existing:
  assumes "findUserBySentryId s (p_id p) = Some old"
  shows "\<exists>s'. upsert p tok t1 t2 s =
     Inr (old\<lparr>email := p_email p, name := p_name p, username := p_username p,
              avatar_url := js_or (opt_prop (p_avatar p) ''avatarUrl'') (p_avatar p),
              access_token := tok, updated_at := t1\<rparr>, s') \<and>
     users s' = AList.update (id' old) (old\<lparr>email := p_email p, name := p_name p, username := p_username p,
              avatar_url := js_or (opt_prop (p_avatar p) ''avatarUrl'') (p_avatar p),
              access_token := tok, updated_at := t1\<rparr>) (users s) \<and> nextId s' = nextId s"
  using assms
  by (auto simp: upsert_def updateUser_def findUserBySentryId_def Let_def map_get_def map_set_def)

lemma upsert_fresh:
  assumes "findUserBySentryId s (p_id p) = None" and "upsert p tok t1 t2 s = Inr (u, s')"
  shows "id' u = nextId s" and "nextId s' = Suc (nextId s)"
    and "u = \<lparr>id' = nextId s, sentry_id = p_id p, email = p_email p, name = p_name p,
             created_at = t1, username = p_username p,
             avatar_url = js_or (opt_prop (p_avatar p) ''avatarUrl'') (p_avatar p),
             updated_at = t2, access_token = tok\<rparr>"
  using assms by (auto simp: upsert_def createUser_def Let_def)

lemma filter_unique:
  "distinct (map f xs) \<Longrightarrow> x \<in> set xs \<Longrightarrow> filter (\<lambda>y. f y = f x) xs = [x]"
proof (induction xs)
  case Nil
  then show ?case by simp
next
  case (Cons a xs)
  show ?case
  proof (cases "a = x")
    case True
    with Cons.prems have "f x \<notin> f ` set xs" by simp
    then have "\<forall>y\<in>set xs. f y \<noteq> f x" by (metis imageI)
    then have "filter (\<lambda>y. f y = f x) xs = []" by (simp add: filter_empty_conv)
    with True show ?thesis by simp
  next
    case False
    with Cons.prems have "x \<in> set xs" and "f a \<noteq> f x" by auto
    with Cons show ?thesis by simp
  qed
qed

lemma store_inv_distinct:
  assumes inv: "store_inv s"
  shows "distinct (map sentry_id (map_values (users s)))" and "distinct (map id' (map_values (users s)))"
    and "\<forall>u \<in> set (map_values (users s)). id' u < nextId s"
proof -
  note D = index_invD[OF inv[unfolded store_inv_def, THEN conjunct2]]
  from inv have dk: "distinct (map fst (users s))" by (simp add: store_inv_def)
  have mem: "map_of (users s) k = Some u" if "(k, u) \<in> set (users s)" for k u
    using that dk by simp
  have idk: "map id' (map_values (users s)) = map fst (users s)"
    unfolding map_values_def using mem D(2) by (auto simp: comp_def)
  with dk show "distinct (map id' (map_values (users s)))" by simp
  have "inj_on (sentry_id \<circ> snd) (set (users s))"
  proof (rule inj_onI)
    fix x y assume x: "x \<in> set (users s)" and y: "y \<in> set (users s)"
      and eq: "(sentry_id \<circ> snd) x = (sentry_id \<circ> snd) y"
    obtain k u where xk: "x = (k, u)" by (cases x)
    obtain k' u' where yk: "y = (k', u')" by (cases y)
    from x xk have 1: "map_of (users s) k = Some u" by (simp add: mem)
    from y yk have 2: "map_of (users s) k' = Some u'" by (simp add: mem)
    from D(5)[OF 1] D(5)[OF 2] eq xk yk have "u = u'" by (metis comp_apply snd_conv option.inject)
    with D(2)[OF 1] D(2)[OF 2] xk yk show "x = y" by simp
  qed
  moreover from dk have "distinct (users s)" by (simp add: distinct_map)
  ultimately have "distinct (map (sentry_id \<circ> snd) (users s))" by (simp add: distinct_map)
  then show "distinct (map sentry_id (map_values (users s)))" by (simp add: map_values_def)
  show "\<forall>u \<in> set (map_values (users s)). id' u < nextId s"
    unfolding map_values_def using mem D(2) D(4) by fastforce
qed

lemma upsert_alice:
  "upsert alice (JStr ''T'') ''2024-01-01T00:00:00.000Z'' ''2024-01-01T00:00:00.000Z'' constructor
     = Inr (alice_user, store1)"
  by (simp add: upsert_def findUserBySentryId_def map_get_def constructor_def createUser_def
      alice_def alice_user_def store1_def map_set_def js_or_def opt_prop_def nullish_def Let_def
      numeral_2_eq_2)

lemma reachable_store1: "reachable store1"
  using reachable.step[OF reachable.init upsert_alice] .

section \<open>Percent-encoding can be read back\<close>

lemma of_char_hex_digit:
  "k < 16 \<Longrightarrow> (of_char (hex_digit k) :: nat) = (if k < 10 then 48 + k else 55 + k)"
  by (simp add: hex_digit_def)

lemma hex_value_hex_digit: "k < 16 \<Longrightarrow> hex_value (hex_digit k) = Some k"
  by (simp add: hex_value_def of_char_hex_digit Let_def)

lemma percent_decode_percent:
  "percent_decode (percent c @ rest) = c # percent_decode rest"
proof -
  have "(of_char c :: nat) < 256" by simp
  then have d: "(of_char c :: nat) div 16 < 16" by (simp add: less_mult_imp_div_less)
  have m: "(of_char c :: nat) mod 16 < 16" by simp
  have "char_of (16 * ((of_char c :: nat) div 16) + of_char c mod 16) = c" by simp
  then show ?thesis
    by (simp add: percent_def hex_value_hex_digit[OF d] hex_value_hex_digit[OF m])
qed

lemma percent_decode_plain:
  "c \<noteq> CHR ''%'' \<Longrightarrow> percent_decode (c # rest) = c # percent_decode rest"
proof (cases rest)
  case Nil
  then show ?thesis by simp
next
  case (Cons b rest')
  assume c: "c \<noteq> CHR ''%''"
  show ?thesis
  proof (cases rest')
    case Nil
    with Cons show ?thesis by simp
  next
    case (Cons d rest'')
    with \<open>rest = b # rest'\<close> c show ?thesis by simp
  qed
qed

lemma percent_decode_concat:
  assumes "\<And>c. (f c = [c] \<and> c \<noteq> CHR ''%'') \<or> f c = percent c"
  shows "percent_decode (concat (map f s)) = s"
proof (induction s)
  case Nil
  show ?case by simp
next
  case (Cons c s)
  from assms[of c] show ?case
  proof
    assume "f c = [c] \<and> c \<noteq> CHR ''%''"
    with Cons show ?thesis by (simp add: percent_decode_plain)
  next
    assume "f c = percent c"
    with Cons show ?thesis by (simp add: percent_decode_percent)
  qed
qed

lemma uri_unreserved_not_percent: "uri_unreserved c \<Longrightarrow> c \<noteq> CHR ''%''"
  by (auto simp: uri_unreserved_def is_alnum_def)

lemma percent_decode_encodeURIComponent: "percent_decode (encodeURIComponent s) = s"
  unfolding encodeURIComponent_def
  by (rule percent_decode_concat) (auto dest: uri_unreserved_not_percent)

lemma encodeURIComponent_inj: "encodeURIComponent a = encodeURIComponent b \<longleftrightarrow> a = b"
  by (metis percent_decode_encodeURIComponent)

lemma hex_digit_encoded: "k < 16 \<Longrightarrow> encoded_char (hex_digit k) \<and> hex_digit k \<noteq> CHR ''+''"
proof -
  assume k: "k < 16"
  have "48 \<le> (of_char (hex_digit k) :: nat)" using of_char_hex_digit[OF k] by simp
  then have "\<And>d. (of_char d :: nat) < 48 \<Longrightarrow> hex_digit k \<noteq> d" by auto
  moreover have "(of_char (hex_digit k) :: nat) \<noteq> 61 \<and> (of_char (hex_digit k) :: nat) \<noteq> 63"
    using of_char_hex_digit[OF k] by simp
  then have "hex_digit k \<noteq> CHR ''='' \<and> hex_digit k \<noteq> CHR ''?''" by auto
  ultimately show ?thesis by (simp add: encoded_char_def)
qed

lemma percent_encoded: "\<forall>d \<in> set (percent c). encoded_char d \<and> d \<noteq> CHR ''+''"
proof -
  have "(of_char c :: nat) < 256" by simp
  then have d: "(of_char c :: nat) div 16 < 16" by (simp add: less_mult_imp_div_less)
  have m: "(of_char c :: nat) mod 16 < 16" by simp
  show ?thesis
    using hex_digit_encoded[OF d] hex_digit_encoded[OF m]
    by (simp add: percent_def encoded_char_def)
qed

lemma form_safe_encoded: "form_safe c \<Longrightarrow> encoded_char c \<and> c \<noteq> CHR ''+'' \<and> c \<noteq> CHR ''%''"
  by (auto simp: form_safe_def is_alnum_def encoded_char_def)

lemma form_encode_char_encoded: "\<forall>d \<in> set (form_encode_char c). encoded_char d"
  using percent_encoded[of c] form_safe_encoded[of c]
  by (auto simp: form_encode_char_def encoded_char_def)

lemma form_encode_encoded: "\<forall>d \<in> set (form_encode s). encoded_char d"
  using form_encode_char_encoded by (auto simp: form_encode_def)

lemma form_decode_form_encode: "form_decode (form_encode s) = s"
proof -
  let ?g = "\<lambda>c. if c = CHR ''+'' then CHR '' '' else c"
  have "map ?g (form_encode s) = concat (map (map ?g \<circ> form_encode_char) s)"
    by (simp add: form_encode_def map_concat)
  moreover have "percent_decode (concat (map (map ?g \<circ> form_encode_char) s)) = s"
  proof (rule percent_decode_concat)
    fix c
    show "((map ?g \<circ> form_encode_char) c = [c] \<and> c \<noteq> CHR ''%'') \<or>
          (map ?g \<circ> form_encode_char) c = percent c"
    proof (cases "c = CHR '' ''")
      case True
      then show ?thesis by (simp add: form_encode_char_def)
    next
      case False
      show ?thesis
      proof (cases "form_safe c")
        case True
        with False form_safe_encoded[OF True] show ?thesis by (simp add: form_encode_char_def)
      next
        case nsafe: False
        have "map ?g (percent c) = percent c"
          using percent_encoded[of c] by (intro map_idI) auto
        with False nsafe show ?thesis by (simp add: form_encode_char_def)
      qed
    qed
  qed
  ultimately show ?thesis by (simp add: form_decode_def)
qed

lemma dropWhile_absent: "sep \<notin> set a \<Longrightarrow> dropWhile (\<lambda>c. c \<noteq> sep) a = []"
  by (induction a) auto

lemma takeWhile_absent: "sep \<notin> set a \<Longrightarrow> takeWhile (\<lambda>c. c \<noteq> sep) a = a"
  by (induction a) auto

lemma dropWhile_first: "sep \<notin> set a \<Longrightarrow> dropWhile (\<lambda>c. c \<noteq> sep) (a @ sep # rest) = sep # rest"
  by (induction a) auto

lemma takeWhile_first: "sep \<notin> set a \<Longrightarrow> takeWhile (\<lambda>c. c \<noteq> sep) (a @ sep # rest) = a"
  by (induction a) auto

lemma split_on_none: "sep \<notin> set a \<Longrightarrow> split_on sep a = [a]"
  by (subst split_on.simps) (simp add: dropWhile_absent)

lemma split_on_first:
  "sep \<notin> set a \<Longrightarrow> split_on sep (a @ sep # rest) = a # split_on sep rest"
  by (subst split_on.simps) (simp add: dropWhile_first takeWhile_first)

lemma parse_pair_encoded:
  "parse_pair (form_encode k @ ''='' @ form_encode v) = (k, v)"
proof -
  have k: "CHR ''='' \<notin> set (form_encode k)"
    using form_encode_encoded[of k] by (auto simp: encoded_char_def)
  then show ?thesis
    by (simp add: parse_pair_def form_decode_form_encode takeWhile_first dropWhile_first)
qed

lemma pair_no_amp: "CHR ''&'' \<notin> set (form_encode k @ ''='' @ form_encode v)"
  using form_encode_encoded[of k] form_encode_encoded[of v] by (auto simp: encoded_char_def)

lemma parse_query_serialize: "parse_query (serialize ps) = ps"
proof (induction ps rule: serialize.induct)
  case 1
  show ?case by (simp add: parse_query_def split_on_none)
next
  case (2 k v)
  have "split_on (CHR ''&'') (form_encode k @ ''='' @ form_encode v) = [form_encode k @ ''='' @ form_encode v]"
    by (rule split_on_none) (rule pair_no_amp)
  then show ?case using parse_pair_encoded[of k v] by (simp add: parse_query_def)
next
  case (3 k v p ps)
  have "split_on (CHR ''&'') ((form_encode k @ ''='' @ form_encode v) @ CHR ''&'' # serialize (p # ps))
      = (form_encode k @ ''='' @ form_encode v) # split_on (CHR ''&'') (serialize (p # ps))"
    by (rule split_on_first) (rule pair_no_amp)
  with 3 show ?case using parse_pair_encoded[of k v] by (simp add: parse_query_def)
qed

lemma serialize_no_hash: "CHR ''#'' \<notin> set (serialize ps)"
proof (induction ps rule: serialize.induct)
  case 1
  show ?case by simp
next
  case (2 k v)
  show ?case using form_encode_encoded[of k] form_encode_encoded[of v] by (auto simp: encoded_char_def)
next
  case (3 k v p ps)
  then show ?case using form_encode_encoded[of k] form_encode_encoded[of v] by (auto simp: encoded_char_def)
qed

lemma url_query_append:
  assumes "CHR ''?'' \<notin> set base" and "CHR ''#'' \<notin> set base" and "CHR ''#'' \<notin> set q"
  shows "url_query (base @ CHR ''?'' # q) = q"
proof -
  from assms have "CHR ''#'' \<notin> set (base @ CHR ''?'' # q)" by simp
  then have "takeWhile (\<lambda>c. c \<noteq> CHR ''#'') (base @ CHR ''?'' # q) = base @ CHR ''?'' # q"
    by (rule takeWhile_absent)
  with assms(1) show ?thesis by (simp add: url_query_def dropWhile_first)
qed

lemma scope_value: "scope = ''org:read project:read team:read member:read event:read''"
  by (simp add: scope_def)

section \<open>The profile endpoints, tried in order\<close>










subsection \<open>The callback route\<close>

lemma sample_config_constructed: "new_SentryOAuthService sample_env = Inr sample_config"
  by (simp add: new_SentryOAuthService_def sample_env_def sample_config_def env_or_def)

lemma callback_rejected:
  "invalid_state q sess \<Longrightarrow>
   auth_callback env cfg fetch t1 t2 q db sess =
     \<lparr>res = Json 400 (ErrorBody ''Invalid state parameter''),
      session_after = sess, store_after = db, requests = []\<rparr>"
  by (simp add: auth_callback_def)

lemma callback_accepted:
  "\<not> invalid_state q sess \<Longrightarrow>
   oauthState (session_after (auth_callback env cfg fetch t1 t2 q db sess)) = None"
  by (auto simp: auth_callback_def Let_def split: option.splits sum.splits prod.splits)

lemma callback_no_code:
  "\<not> invalid_state q sess \<Longrightarrow> code q = None \<or> code q = Some [] \<Longrightarrow>
   res (auth_callback env cfg fetch t1 t2 q db sess) =
     Json 400 (ErrorBody ''Authorization code not provided'')"
  by (auto simp: auth_callback_def Let_def)

lemma callback_flow_error:
  "\<not> invalid_state q sess \<Longrightarrow> code q = Some c \<Longrightarrow> c \<noteq> [] \<Longrightarrow>
   fst (completeOAuthFlow cfg fetch c) = Inl e \<Longrightarrow>
   res (auth_callback env cfg fetch t1 t2 q db sess) = error_redirect env e"
  by (auto simp: auth_callback_def Let_def split: prod.splits sum.splits)

lemma callback_flow_ok:
  "\<not> invalid_state q sess \<Longrightarrow> code q = Some c \<Longrightarrow> c \<noteq> [] \<Longrightarrow>
   fst (completeOAuthFlow cfg fetch c) = Inr (su, tok) \<Longrightarrow> log_sentry_user su = None \<Longrightarrow>
   res (auth_callback env cfg fetch t1 t2 q db sess) = Redirect (frontendUrl env @ ''/auth/success'')"
  using upsert_total[of su tok t1 t2 db]
  by (auto simp: auth_callback_def Let_def split: prod.splits sum.splits)

lemma exchange_refused:
  "fetch (token_request cfg c) = Resolved r \<Longrightarrow> \<not> ok r \<Longrightarrow> body_text r = Inr b \<Longrightarrow>
   fst (completeOAuthFlow cfg fetch c) =
     Inl (Error (Whole (cross_mark @ '' Sentry token exchange failed: '' @ digits (status r) @ '' '' @ b)))"
  by (simp add: completeOAuthFlow_def exchangeCodeForToken_def)

lemma error_redirect_whole:
  "message e = Whole m \<Longrightarrow>
   error_redirect env e = Redirect (frontendUrl env @ ''/auth/error?message='' @ encodeURIComponent m)"
  by (simp add: error_redirect_def)

lemma callback_store_cases:
  "store_after (auth_callback env cfg fetch t1 t2 q db sess) = db \<and>
     userId (session_after (auth_callback env cfg fetch t1 t2 q db sess)) = userId sess \<or>
   (\<exists>su tok u. log_sentry_user su = None \<and> upsert su tok t1 t2 db =
        Inr (u, store_after (auth_callback env cfg fetch t1 t2 q db sess)) \<and>
      userId (session_after (auth_callback env cfg fetch t1 t2 q db sess)) = Some (id' u))"
  by (auto simp: auth_callback_def Let_def split: option.splits prod.splits sum.splits)

lemma callback_reachable:
  assumes "reachable db"
  shows "reachable (store_after (auth_callback env cfg fetch t1 t2 q db sess))"
  using callback_store_cases[of env cfg fetch t1 t2 q db sess] assms
  by (auto intro: reachable.step)

lemma callback_binds_positive_id:
  assumes r: "reachable db" and s: "userId sess \<noteq> Some 0"
  shows "userId (session_after (auth_callback env cfg fetch t1 t2 q db sess)) \<noteq> Some 0"
proof -
  from callback_store_cases[of env cfg fetch t1 t2 q db sess] show ?thesis
  proof (elim disjE conjE exE)
    assume "userId (session_after (auth_callback env cfg fetch t1 t2 q db sess)) = userId sess"
    with s show ?thesis by simp
  next
    fix su tok u
    assume up: "upsert su tok t1 t2 db = Inr (u, store_after (auth_callback env cfg fetch t1 t2 q db sess))"
      and b: "userId (session_after (auth_callback env cfg fetch t1 t2 q db sess)) = Some (id' u)"
    from r have inv: "store_inv db" by (rule reachable_store_inv)
    from store_inv_upsert[OF inv up]
    have inv': "store_inv (store_after (auth_callback env cfg fetch t1 t2 q db sess))" .
    note D = index_invD[OF inv'[unfolded store_inv_def, THEN conjunct2]]
    from upsert_finds(2)[OF inv up] have "0 < id' u"
      using D(3)[of "id' u" u] by (simp add: findUserById_def map_get_def)
    with b show ?thesis by simp
  qed
qed

lemma upsert_users:
  "upsert su tok t1 t2 db = Inr (u, db') \<Longrightarrow> users db' = AList.update (id' u) u (users db)"
  by (auto simp: upsert_def createUser_def updateUser_def Let_def map_set_def
      split: option.splits if_splits)

lemma set_update_subset: "set (AList.update k v al) \<subseteq> insert (k, v) (set al)"
  by (induction al) auto

lemma callback_printable_ids:
  assumes r: "reachable db" and p: "printable_ids db"
  shows "printable_ids (store_after (auth_callback env cfg fetch t1 t2 q db sess))"
proof -
  from callback_store_cases[of env cfg fetch t1 t2 q db sess] show ?thesis
  proof (elim disjE conjE exE)
    assume "store_after (auth_callback env cfg fetch t1 t2 q db sess) = db"
    with p show ?thesis by simp
  next
    fix su tok u
    assume l: "log_sentry_user su = None"
      and up: "upsert su tok t1 t2 db = Inr (u, store_after (auth_callback env cfg fetch t1 t2 q db sess))"
    from r have inv: "store_inv db" by (rule reachable_store_inv)
    from upsert_finds(3)[OF inv up] l have "printable (sentry_id u)"
      by (auto simp: log_sentry_user_def printable_def split: sum.splits)
    with p set_update_subset[of "id' u" u "users db"] show ?thesis
      unfolding printable_ids_def upsert_users[OF up] map_values_def list_all_iff
      by auto
  qed
qed


lemma callback_log_error:
  "\<not> invalid_state q sess \<Longrightarrow> code q = Some c \<Longrightarrow> c \<noteq> [] \<Longrightarrow>
   fst (completeOAuthFlow cfg fetch c) = Inr (su, tok) \<Longrightarrow> log_sentry_user su = Some e \<Longrightarrow>
   res (auth_callback env cfg fetch t1 t2 q db sess) = error_redirect env e"
  by (auto simp: auth_callback_def Let_def split: prod.splits sum.splits)

lemma printable_ids_constructor: "printable_ids constructor"
  by (simp add: printable_ids_def constructor_def map_values_def)

subsection \<open>The token exchange\<close>






section \<open>The user directory: upsert, statistics, the email index\<close>

text \<open>
  C6. From every state the server can reach, running the create-or-update step twice with
  the same profile succeeds both times; the second run returns the first run's user with
  only the access token and \<open>updated_at\<close> refreshed, so the local id is unchanged; the
  table does not grow; the table then holds exactly one user with that Sentry id. At all
  times the users of the table have pairwise distinct Sentry ids and pairwise distinct
  local ids, all below \<open>nextId\<close>; a new user takes the id \<open>nextId\<close>, which is then
  increased, and an update keeps the id of the user it replaces.
\<close>

theorem upsert_twice:
  assumes "reachable s"
  shows "\<exists>u1 s1 u2 s2.
     upsert p tok t1 t2 s = Inr (u1, s1) \<and> upsert p tok' t3 t4 s1 = Inr (u2, s2) \<and>
     id' u2 = id' u1 \<and>
     u2 = u1\<lparr>access_token := tok', updated_at := t3\<rparr> \<and>
     map_size (users s2) = map_size (users s1) \<and>
     filter (\<lambda>u. sentry_id u = p_id p) (map_values (users s2)) = [u2] \<and>
     distinct (map sentry_id (map_values (users s))) \<and>
     distinct (map id' (map_values (users s))) \<and>
     (\<forall>u \<in> set (map_values (users s)). id' u < nextId s) \<and>
     (case findUserBySentryId s (p_id p) of
        None \<Rightarrow> id' u1 = nextId s \<and> nextId s1 = nextId s + 1
      | Some existing \<Rightarrow> id' u1 = id' existing \<and> nextId s1 = nextId s)"
proof -
  obtain u1 s1 where up1: "upsert p tok t1 t2 s = Inr (u1, s1)"
    using upsert_total by blast
  from assms have inv: "store_inv s" by (rule reachable_store_inv)
  from assms up1 have r1: "reachable s1" by (rule reachable_upsert)
  then have inv1: "store_inv s1" by (rule reachable_store_inv)
  note f1 = upsert_finds[OF inv up1]
  from upsert_existing[OF f1(1), of tok' t3 t4] obtain s2 where
    up2: "upsert p tok' t3 t4 s1 =
      Inr (u1\<lparr>email := p_email p, name := p_name p, username := p_username p,
              avatar_url := js_or (opt_prop (p_avatar p) ''avatarUrl'') (p_avatar p),
              access_token := tok', updated_at := t3\<rparr>, s2)"
    and us2: "users s2 = AList.update (id' u1) (u1\<lparr>email := p_email p, name := p_name p, username := p_username p,
              avatar_url := js_or (opt_prop (p_avatar p) ''avatarUrl'') (p_avatar p),
              access_token := tok', updated_at := t3\<rparr>) (users s1)"
    by blast
  have fields: "email u1 = p_email p \<and> name u1 = p_name p \<and> username u1 = p_username p \<and>
      avatar_url u1 = js_or (opt_prop (p_avatar p) ''avatarUrl'') (p_avatar p)"
    using up1
    by (auto simp: upsert_def updateUser_def createUser_def Let_def split: option.splits if_splits)
  define u2 where "u2 = u1\<lparr>access_token := tok', updated_at := t3\<rparr>"
  have u2: "u1\<lparr>email := p_email p, name := p_name p, username := p_username p,
              avatar_url := js_or (opt_prop (p_avatar p) ''avatarUrl'') (p_avatar p),
              access_token := tok', updated_at := t3\<rparr> = u2"
    unfolding u2_def using fields by (cases u1) simp
  from assms r1 up2 have r2: "reachable s2" by (metis reachable_upsert)
  then have inv2: "store_inv s2" by (rule reachable_store_inv)
  have in1: "id' u1 \<in> fst ` set (users s1)"
    using f1(2) by (auto simp: findUserById_def map_get_def dest: map_of_SomeD intro: rev_image_eqI)
  have size: "map_size (users s2) = map_size (users s1)"
    using us2 in1 by (simp add: map_size_def length_update)
  note f2 = upsert_finds[OF inv1 up2[unfolded u2]]
  have "u2 \<in> set (map_values (users s2))"
    using f2(2) by (auto simp: findUserById_def map_get_def map_values_def dest: map_of_SomeD intro: rev_image_eqI)
  from filter_unique[OF store_inv_distinct(1)[OF inv2] this] f2(3)
  have one: "filter (\<lambda>u. sentry_id u = p_id p) (map_values (users s2)) = [u2]" by simp
  have ids: "(case findUserBySentryId s (p_id p) of
        None \<Rightarrow> id' u1 = nextId s \<and> nextId s1 = nextId s + 1
      | Some existing \<Rightarrow> id' u1 = id' existing \<and> nextId s1 = nextId s)"
  proof (cases "findUserBySentryId s (p_id p)")
    case None
    with upsert_fresh[OF None up1] show ?thesis by simp
  next
    case (Some old)
    with upsert_existing[OF Some, of tok t1 t2] up1 show ?thesis by auto
  qed
  show ?thesis
    using up1 up2[unfolded u2] size one ids store_inv_distinct[OF inv]
    by (intro exI[of _ u1] exI[of _ s1] exI[of _ u2] exI[of _ s2]) (simp add: u2_def)
qed

theorem upsert_twice_witness:
  "reachable store1 \<and>
   (case upsert bob (JStr ''T1'') ''t1'' ''t2'' store1 of
      Inl e \<Rightarrow> False
    | Inr (u1, s1) \<Rightarrow>
        (case upsert bob (JStr ''T2'') ''t3'' ''t4'' s1 of
           Inl e \<Rightarrow> False
         | Inr (u2, s2) \<Rightarrow>
             id' u1 = 2 \<and> id' u2 = 2 \<and> created_at u2 = ''t1'' \<and> updated_at u2 = ''t3'' \<and>
             access_token u2 = JStr ''T2'' \<and> map_size (users s1) = 2 \<and> map_size (users s2) = 2 \<and>
             filter (\<lambda>u. sentry_id u = JStr ''43'') (map_values (users s2)) = [u2]))"
proof -
  from upsert_twice[OF reachable_store1, of bob "JStr ''T1''" "''t1''" "''t2''" "JStr ''T2''" "''t3''" "''t4''"]
  obtain u1 s1 u2 s2 where
    1: "upsert bob (JStr ''T1'') ''t1'' ''t2'' store1 = Inr (u1, s1)"
    and 2: "upsert bob (JStr ''T2'') ''t3'' ''t4'' s1 = Inr (u2, s2)"
    and 3: "id' u2 = id' u1" "u2 = u1\<lparr>access_token := JStr ''T2'', updated_at := ''t3''\<rparr>"
      "map_size (users s2) = map_size (users s1)"
      "filter (\<lambda>u. sentry_id u = p_id bob) (map_values (users s2)) = [u2]"
    by blast
  have f: "findUserBySentryId store1 (p_id bob) = None"
    by (simp add: findUserBySentryId_def map_get_def store1_def bob_def)
  from upsert_fresh[OF f 1] have u1: "id' u1 = 2" "created_at u1 = ''t1''"
    by (simp_all add: store1_def)
  from 1 f have "users s1 = map_set (users store1) (id' u1) u1"
    by (auto simp: upsert_def createUser_def Let_def)
  then have sz: "map_size (users s1) = 2"
    using u1 by (simp add: map_set_def map_size_def store1_def)
  have b: "p_id bob = JStr ''43''" by (simp add: bob_def)
  from 1 2 3 u1 sz reachable_store1 show ?thesis by (simp add: b)
qed

text \<open>
  C9. The statistics do not depend on access tokens: two stores that agree once every
  access token is erased give the same statistics and the same response of
  \<open>/api/demo/stats\<close>. \<open>totalUsers\<close> is the number of local ids the store finds a user
  for, and the list holds, for each stored user in insertion order, the record cut down to
  \<open>id\<close>, \<open>sentry_id\<close>, \<open>email\<close>, \<open>name\<close> and \<open>created_at\<close>.
\<close>

theorem stats_independent_of_tokens:
  assumes "reachable s" and "erase_tokens s = erase_tokens s'"
  shows "getStats s = getStats s' \<and> demo_stats s = demo_stats s' \<and>
         totalUsers (getStats s) = card {i. findUserById s i \<noteq> None} \<and>
         users' (getStats s) = map stats_user.truncate (map_values (users s))"
proof -
  have proj: "getStats x = getStats (erase_tokens x)" for x
    by (simp add: getStats_def erase_tokens_def erase_token_def map_size_def map_values_def
        comp_def case_prod_unfold)
  from assms(2) have eq: "getStats s = getStats s'" using proj[of s] proj[of s'] by simp
  from assms(1) have "distinct (map fst (users s))"
    using reachable_store_inv by (simp add: store_inv_def)
  then have "card (fst ` set (users s)) = length (users s)"
    by (metis distinct_card length_map set_map)
  moreover have "{i. findUserById s i \<noteq> None} = fst ` set (users s)"
    by (auto simp: findUserById_def map_get_def map_of_eq_None_iff)
  ultimately have card: "totalUsers (getStats s) = card {i. findUserById s i \<noteq> None}"
    by (simp add: getStats_def map_size_def)
  have tr: "users' (getStats s) = map stats_user.truncate (map_values (users s))"
    by (simp add: getStats_def stats_user.truncate_def)
  from eq card tr show ?thesis by (simp add: demo_stats_def)
qed

theorem stats_independent_of_tokens_witness:
  "reachable store1 \<and>
   erase_tokens store1 =
     erase_tokens \<lparr>users = [(1, alice_user\<lparr>access_token := JStr ''other''\<rparr>)],
                   usersBySentryId = [(JStr ''42'', alice_user\<lparr>access_token := JNull\<rparr>)],
                   usersByEmail = [(JStr ''a@b.com'', alice_user)],
                   nextId = 2\<rparr> \<and>
   getStats store1 =
     getStats \<lparr>users = [(1, alice_user\<lparr>access_token := JStr ''other''\<rparr>)],
               usersBySentryId = [(JStr ''42'', alice_user\<lparr>access_token := JNull\<rparr>)],
               usersByEmail = [(JStr ''a@b.com'', alice_user)],
               nextId = 2\<rparr> \<and>
   totalUsers (getStats store1) = 1"
proof -
  have e: "erase_tokens store1 =
     erase_tokens \<lparr>users = [(1, alice_user\<lparr>access_token := JStr ''other''\<rparr>)],
                   usersBySentryId = [(JStr ''42'', alice_user\<lparr>access_token := JNull\<rparr>)],
                   usersByEmail = [(JStr ''a@b.com'', alice_user)],
                   nextId = 2\<rparr>"
    by (simp add: erase_tokens_def erase_token_def store1_def)
  have "totalUsers (getStats store1) = 1"
    by (simp add: getStats_def store1_def map_size_def)
  with stats_independent_of_tokens[OF reachable_store1 e] reachable_store1 e show ?thesis
    by simp
qed

text \<open>
  C10. In a reachable store, creating a user whose email is that of a stored user with
  another Sentry id files the new user under that email: \<open>findUserByEmail\<close> returns the
  new user, the older user is still found by local id and by Sentry id, and no email finds
  the older user any more.
\<close>

theorem createUser_same_email:
  assumes r: "reachable s"
    and old: "findUserById s (id' old) = Some old"
    and em: "email old = p_email p"
    and sid: "sentry_id old \<noteq> p_id p"
    and cu: "createUser p tok t1 t2 s = (new, s')"
  shows "findUserByEmail s' (p_email p) = Some new \<and>
         findUserById s' (id' old) = Some old \<and>
         findUserBySentryId s' (sentry_id old) = Some old \<and>
         (\<forall>e. findUserByEmail s' e \<noteq> Some old)"
proof -
  from r have inv: "store_inv s" by (rule reachable_store_inv)
  note D = index_invD[OF inv[unfolded store_inv_def, THEN conjunct2]]
  from old have U: "map_of (users s) (id' old) = Some old"
    by (simp add: findUserById_def map_get_def)
  from cu have new: "id' new = nextId s" "sentry_id new = p_id p" "email new = p_email p"
    and s': "users s' = AList.update (nextId s) new (users s)"
            "usersBySentryId s' = AList.update (p_id p) new (usersBySentryId s)"
            "usersByEmail s' = AList.update (p_email p) new (usersByEmail s)"
    by (auto simp: createUser_def Let_def map_set_def)
  from new sid have ne: "new \<noteq> old" by auto
  have 1: "findUserByEmail s' (p_email p) = Some new"
    by (simp add: findUserByEmail_def map_get_def s' update_conv')
  from D(4)[OF U] have "id' old \<noteq> nextId s" by simp
  then have 2: "findUserById s' (id' old) = Some old"
    using U by (simp add: findUserById_def map_get_def s' update_conv')
  from D(5)[OF U] sid have 3: "findUserBySentryId s' (sentry_id old) = Some old"
    by (simp add: findUserBySentryId_def map_get_def s' update_conv')
  have 4: "findUserByEmail s' e \<noteq> Some old" for e
  proof
    assume a: "findUserByEmail s' e = Some old"
    show False
    proof (cases "e = p_email p")
      case True
      with a 1 ne show False by simp
    next
      case False
      with a have "map_of (usersByEmail s) e = Some old"
        by (simp add: findUserByEmail_def map_get_def s' update_conv')
      from D(8)[OF this] em False show False by simp
    qed
  qed
  from 1 2 3 4 show ?thesis by blast
qed

theorem createUser_same_email_witness:
  "reachable store1 \<and>
   findUserById store1 (id' alice_user) = Some alice_user \<and>
   findUserByEmail store1 (p_email bob) = Some alice_user \<and>
   email alice_user = p_email bob \<and>
   sentry_id alice_user \<noteq> p_id bob \<and>
   findUserByEmail (snd (createUser bob (JStr ''T2'') ''t1'' ''t2'' store1)) (p_email bob)
     = Some (fst (createUser bob (JStr ''T2'') ''t1'' ''t2'' store1)) \<and>
   id' (fst (createUser bob (JStr ''T2'') ''t1'' ''t2'' store1)) = 2 \<and>
   findUserById (snd (createUser bob (JStr ''T2'') ''t1'' ''t2'' store1)) 1 = Some alice_user \<and>
   findUserBySentryId (snd (createUser bob (JStr ''T2'') ''t1'' ''t2'' store1)) (JStr ''42'')
     = Some alice_user \<and>
   (\<forall>e. findUserByEmail (snd (createUser bob (JStr ''T2'') ''t1'' ''t2'' store1)) e
          \<noteq> Some alice_user)"
proof -
  have h1: "findUserById store1 (id' alice_user) = Some alice_user"
    by (simp add: findUserById_def map_get_def store1_def alice_user_def)
  have h1': "findUserByEmail store1 (p_email bob) = Some alice_user"
    by (simp add: findUserByEmail_def map_get_def store1_def bob_def)
  have h2: "email alice_user = p_email bob" by (simp add: alice_user_def bob_def)
  have h3: "sentry_id alice_user \<noteq> p_id bob" by (simp add: alice_user_def bob_def)
  have h4: "createUser bob (JStr ''T2'') ''t1'' ''t2'' store1 =
      (fst (createUser bob (JStr ''T2'') ''t1'' ''t2'' store1),
       snd (createUser bob (JStr ''T2'') ''t1'' ''t2'' store1))" by simp
  have i1: "id' alice_user = 1" and i2: "sentry_id alice_user = JStr ''42''"
    by (simp_all add: alice_user_def)
  have i3: "id' (fst (createUser bob (JStr ''T2'') ''t1'' ''t2'' store1)) = 2"
    by (simp add: createUser_def Let_def store1_def)
  from createUser_same_email[OF reachable_store1 h1 h2 h3 h4] reachable_store1 h1 h1' h2 h3 i3
  show ?thesis unfolding i1 i2 by blast
qed

section \<open>The current user\<close>

text \<open>
  C8. \<open>GET /api/auth/me\<close> on a session that binds no local id answers 401. On a session
  that binds a local id the store has a user for, it answers 200 with that user without
  its \<open>access_token\<close> (putting the token back gives the stored record) and leaves the
  session as it is. On a session that binds a local id the store has no user for, it
  answers 401 and the session is destroyed. The store hands out ids from 1, so the id 0,
  which the middleware would read as no id, is not one a session binds.
\<close>

theorem auth_me_cases:
  assumes "userId sess \<noteq> Some 0"
  shows "(case userId sess of
            None \<Rightarrow> auth_me db sess = (Json 401 (ErrorBody ''Authentication required''), sess)
          | Some i \<Rightarrow>
              (case findUserById db i of
                 Some user \<Rightarrow>
                   auth_me db sess = (Json 200 (UserBody (safe_user.truncate user)), sess) \<and>
                   safe_user.extend (safe_user.truncate user) (user.fields (access_token user)) = user
               | None \<Rightarrow>
                   auth_me db sess = (Json 401 (ErrorBody ''User not found''), empty_session)))"
proof (cases "userId sess")
  case None
  then show ?thesis by (simp add: auth_me_def)
next
  case (Some i)
  with assms have i: "i \<noteq> 0" by auto
  show ?thesis
  proof (cases "findUserById db i")
    case None
    with Some i show ?thesis by (simp add: auth_me_def requireAuth_def)
  next
    case (Some user)
    have "safe_user.extend (safe_user.truncate user) (user.fields (access_token user)) = user"
      by (cases user) (simp add: safe_user.defs user.defs stats_user.defs)
    with Some i \<open>userId sess = Some i\<close> show ?thesis
      by (simp add: auth_me_def requireAuth_def)
  qed
qed

theorem auth_me_cases_witness:
  "userId \<lparr>oauthState = None, userId = Some 1, sentryId = Some (JStr ''42'')\<rparr> \<noteq> Some 0 \<and>
   auth_me store1 \<lparr>oauthState = None, userId = Some 1, sentryId = Some (JStr ''42'')\<rparr> =
     (Json 200 (UserBody \<lparr>id' = 1, sentry_id = JStr ''42'', email = JStr ''a@b.com'',
                          name = JStr ''a'', created_at = ''2024-01-01T00:00:00.000Z'',
                          username = JUndefined, avatar_url = JUndefined,
                          updated_at = ''2024-01-01T00:00:00.000Z''\<rparr>),
      \<lparr>oauthState = None, userId = Some 1, sentryId = Some (JStr ''42'')\<rparr>) \<and>
   auth_me store1 \<lparr>oauthState = None, userId = Some 7, sentryId = Some (JStr ''42'')\<rparr> =
     (Json 401 (ErrorBody ''User not found''), empty_session) \<and>
   auth_me store1 empty_session = (Json 401 (ErrorBody ''Authentication required''), empty_session)"
proof -
  have f1: "findUserById store1 (Suc 0) = Some alice_user"
    by (simp add: findUserById_def map_get_def store1_def)
  have f7: "findUserById store1 7 = None"
    by (simp add: findUserById_def map_get_def store1_def)
  have t: "safe_user.truncate alice_user =
      \<lparr>id' = 1, sentry_id = JStr ''42'', email = JStr ''a@b.com'',
       name = JStr ''a'', created_at = ''2024-01-01T00:00:00.000Z'',
       username = JUndefined, avatar_url = JUndefined,
       updated_at = ''2024-01-01T00:00:00.000Z''\<rparr>"
    by (simp add: alice_user_def safe_user.defs user.defs stats_user.defs)
  show ?thesis
    using auth_me_cases[of "\<lparr>oauthState = None, userId = Some 1, sentryId = Some (JStr ''42'')\<rparr>" store1]
      auth_me_cases[of "\<lparr>oauthState = None, userId = Some 7, sentryId = Some (JStr ''42'')\<rparr>" store1]
      auth_me_cases[of empty_session store1]
    by (simp add: f1 f7 t empty_session_def)
qed

section \<open>The authorization URL\<close>

text \<open>
  C4, as the code has it. When the base URL holds no \<open>?\<close> and no \<open>#\<close>, the URL built by
  \<open>getAuthorizationUrl\<close>, read back as a URL, has the query parameters
  \<open>response_type=code\<close>, \<open>client_id\<close> and \<open>redirect_uri\<close> as configured (the text
  \<open>undefined\<close> when no redirect URI is configured), the fixed space-delimited scope list,
  and, for a non-empty state argument, \<open>state\<close> equal to that argument, in this order and
  nothing else. For the empty string the URL has no \<open>state\<close> parameter.
\<close>

theorem authorization_url_parameters:
  assumes "CHR ''?'' \<notin> set (baseUrl cfg)" and "CHR ''#'' \<notin> set (baseUrl cfg)"
  shows "searchParams (getAuthorizationUrl cfg st) =
     [(''response_type'', ''code''),
      (''client_id'', clientId cfg),
      (''redirect_uri'', str_or_undefined (redirectUri cfg)),
      (''scope'', ''org:read project:read team:read member:read event:read'')]
     @ (if st = [] then [] else [(''state'', st)])"
proof -
  let ?ps = "[(''response_type'', ''code''),
      (''client_id'', clientId cfg),
      (''redirect_uri'', str_or_undefined (redirectUri cfg)),
      (''scope'', scope)] @ (if st = [] then [] else [(''state'', st)])"
  have u: "getAuthorizationUrl cfg st = (baseUrl cfg @ ''/oauth/authorize/'') @ CHR ''?'' # serialize ?ps"
    by (simp add: getAuthorizationUrl_def Let_def)
  have "url_query (getAuthorizationUrl cfg st) = serialize ?ps"
    unfolding u using assms by (intro url_query_append serialize_no_hash) simp_all
  then have "searchParams (getAuthorizationUrl cfg st) = ?ps"
    by (simp only: searchParams_def parse_query_serialize)
  then show ?thesis by (simp add: scope_value)
qed

theorem authorization_url_parameters_witness:
  "CHR ''?'' \<notin> set (baseUrl sample_config) \<and> CHR ''#'' \<notin> set (baseUrl sample_config) \<and>
   getAuthorizationUrl sample_config ''a b&c=d'' =
     ''https://sentry.io/oauth/authorize/?response_type=code&client_id=cid&redirect_uri=http%3A%2F%2Flocalhost%3A3001%2Fapi%2Fauth%2Fcallback&scope=org%3Aread+project%3Aread+team%3Aread+member%3Aread+event%3Aread&state=a+b%26c%3Dd'' \<and>
   searchParams (getAuthorizationUrl sample_config ''a b&c=d'') =
     [(''response_type'', ''code''),
      (''client_id'', ''cid''),
      (''redirect_uri'', ''http://localhost:3001/api/auth/callback''),
      (''scope'', ''org:read project:read team:read member:read event:read''),
      (''state'', ''a b&c=d'')]"
proof -
  have h1: "CHR ''?'' \<notin> set (baseUrl sample_config)" and h2: "CHR ''#'' \<notin> set (baseUrl sample_config)"
    by (simp_all add: sample_config_def)
  have u: "getAuthorizationUrl sample_config ''a b&c=d'' =
     ''https://sentry.io/oauth/authorize/?response_type=code&client_id=cid&redirect_uri=http%3A%2F%2Flocalhost%3A3001%2Fapi%2Fauth%2Fcallback&scope=org%3Aread+project%3Aread+team%3Aread+member%3Aread+event%3Aread&state=a+b%26c%3Dd''"
    by code_simp
  from authorization_url_parameters[OF h1 h2, of "''a b&c=d''"] h1 h2 u show ?thesis
    by (simp add: sample_config_def str_or_undefined_def)
qed

text \<open>
  The claim as it is written fails on the empty string: the URL then carries no
  \<open>state\<close> parameter at all.
\<close>

theorem authorization_url_empty_state:
  "params_get (searchParams (getAuthorizationUrl sample_config '''')) ''state'' = None"
  by code_simp

section \<open>The callback: state check and error responses\<close>

text \<open>
  C1, as the code has it. One request to the callback deletes the pending state exactly
  when the state check passes (the received state is present, non-empty and equal to the
  pending one); a request that fails the check leaves the session as it was. After any
  one request, a second request with the same \<open>state\<close> and \<open>code\<close> on the resulting
  session fails the state check and is answered 400 \<open>Invalid state parameter\<close>, whatever
  the provider and the store then are.
\<close>

theorem callback_state_single_use:
  "(let r = auth_callback env cfg fetch t1 t2 q db sess
    in oauthState (session_after r) = (if invalid_state q sess then oauthState sess else None) \<and>
       res (auth_callback env' cfg' fetch' t3 t4 q db' (session_after r)) =
         Json 400 (ErrorBody ''Invalid state parameter''))"
proof (cases "invalid_state q sess")
  case True
  then show ?thesis by (simp add: callback_rejected Let_def)
next
  case False
  from callback_accepted[OF False, of env cfg fetch t1 t2 db]
  have n: "oauthState (session_after (auth_callback env cfg fetch t1 t2 q db sess)) = None" .
  then have "invalid_state q (session_after (auth_callback env cfg fetch t1 t2 q db sess))"
    by (auto simp: invalid_state_def split: option.splits)
  from callback_rejected[OF this] n False show ?thesis by (simp add: Let_def)
qed

theorem callback_state_single_use_witness:
  "\<not> invalid_state \<lparr>code = Some ''C'', state = Some ''S''\<rparr> pending \<and>
   res (auth_callback sample_env sample_config offline ''t1'' ''t2''
          \<lparr>code = Some ''C'', state = Some ''S''\<rparr> constructor pending) =
     Redirect ''http://localhost:5173/auth/error?message=fetch%20failed'' \<and>
   oauthState (session_after (auth_callback sample_env sample_config offline ''t1'' ''t2''
          \<lparr>code = Some ''C'', state = Some ''S''\<rparr> constructor pending)) = None \<and>
   res (auth_callback sample_env sample_config offline ''t3'' ''t4''
          \<lparr>code = Some ''C'', state = Some ''S''\<rparr> constructor
          (session_after (auth_callback sample_env sample_config offline ''t1'' ''t2''
             \<lparr>code = Some ''C'', state = Some ''S''\<rparr> constructor pending))) =
     Json 400 (ErrorBody ''Invalid state parameter'')"
proof -
  have v: "\<not> invalid_state \<lparr>code = Some ''C'', state = Some ''S''\<rparr> pending"
    by (simp add: invalid_state_def pending_def)
  have r: "res (auth_callback sample_env sample_config offline ''t1'' ''t2''
          \<lparr>code = Some ''C'', state = Some ''S''\<rparr> constructor pending) =
     Redirect ''http://localhost:5173/auth/error?message=fetch%20failed''"
    by code_simp
  from callback_state_single_use[of sample_env sample_config offline "''t1''" "''t2''"
      "\<lparr>code = Some ''C'', state = Some ''S''\<rparr>" constructor pending
      sample_env sample_config offline "''t3''" "''t4''" constructor] v r
  show ?thesis by (simp add: Let_def)
qed

text \<open>
  A request with a state other than the pending one does not consume the pending state:
  the session still holds \<open>S\<close> afterwards.
\<close>

theorem callback_state_kept_on_mismatch:
  "oauthState (session_after
     (auth_callback sample_env sample_config offline ''t1'' ''t2''
        \<lparr>code = Some ''C'', state = Some ''X''\<rparr> constructor pending)) = Some ''S''"
  by (simp add: auth_callback_def pending_def invalid_state_def)

text \<open>
  C2, as the code has it. What the callback answers to each failure. A failed state check
  and a missing or empty code are answered with status 400 and a JSON body. An error
  thrown by \<open>completeOAuthFlow\<close> (token exchange, network, profile resolution) or by a
  log line after it reaches the \<open>catch\<close>, which redirects to the frontend's
  \<open>/auth/error\<close> page with the URL-encoded message of the error; when that message ends
  in a lone surrogate, \<open>encodeURIComponent\<close> throws inside the \<open>catch\<close> and the handler
  sends neither a redirect nor a status.
\<close>

theorem callback_error_responses:
  "(invalid_state q sess \<longrightarrow>
      res (auth_callback env cfg fetch t1 t2 q db sess) =
        Json 400 (ErrorBody ''Invalid state parameter'')) \<and>
   (\<not> invalid_state q sess \<and> (code q = None \<or> code q = Some []) \<longrightarrow>
      res (auth_callback env cfg fetch t1 t2 q db sess) =
        Json 400 (ErrorBody ''Authorization code not provided'')) \<and>
   (\<forall>c e. \<not> invalid_state q sess \<and> code q = Some c \<and> c \<noteq> [] \<and>
      (fst (completeOAuthFlow cfg fetch c) = Inl e \<or>
       (\<exists>su tok. fst (completeOAuthFlow cfg fetch c) = Inr (su, tok) \<and>
                 log_sentry_user su = Some e)) \<longrightarrow>
      res (auth_callback env cfg fetch t1 t2 q db sess) =
        (case message e of
           Whole m \<Rightarrow> Redirect (frontendUrl env @ ''/auth/error?message='' @ encodeURIComponent m)
         | Torn m \<Rightarrow> Unanswered (URIError (Whole ''URI malformed''))))"
  using callback_rejected[of q sess env cfg fetch t1 t2 db]
    callback_no_code[of q sess env cfg fetch t1 t2 db]
    callback_flow_error[of q sess _ cfg fetch _ env t1 t2 db]
    callback_log_error[of q sess _ cfg fetch _ _ _ env t1 t2 db]
  by (auto simp: error_redirect_def)

text \<open>
  The provider answers 500 on every profile endpoint with a body whose 200th and 201st
  UTF-16 units are one character: the message of the error ends in a lone surrogate and
  the callback sends no redirect.
\<close>

theorem callback_error_responses_witness:
  "\<not> invalid_state \<lparr>code = Some ''C'', state = Some ''S''\<rparr> pending \<and>
   fst (completeOAuthFlow sample_config cuts_pair ''C'') =
     Inl (Error (Torn (''500: '' @ replicate 199 (CHR ''a'')))) \<and>
   res (auth_callback sample_env sample_config cuts_pair ''t1'' ''t2''
          \<lparr>code = Some ''C'', state = Some ''S''\<rparr> constructor pending) =
     Unanswered (URIError (Whole ''URI malformed''))"
proof -
  have v: "\<not> invalid_state \<lparr>code = Some ''C'', state = Some ''S''\<rparr> pending"
    by (simp add: invalid_state_def pending_def)
  have f: "fst (completeOAuthFlow sample_config cuts_pair ''C'') =
     Inl (Error (Torn (''500: '' @ replicate 199 (CHR ''a''))))"
    by code_simp
  from callback_error_responses[of "\<lparr>code = Some ''C'', state = Some ''S''\<rparr>" pending
      sample_env sample_config cuts_pair "''t1''" "''t2''" constructor] v f
  have "res (auth_callback sample_env sample_config cuts_pair ''t1'' ''t2''
          \<lparr>code = Some ''C'', state = Some ''S''\<rparr> constructor pending) =
     Unanswered (URIError (Whole ''URI malformed''))"
    by simp
  with v f show ?thesis by simp
qed

text \<open>
  A request with a wrong state, and one with the right state and no code: both get a 400
  response with a JSON body, not a redirect.
\<close>

theorem callback_check_failure_is_json:
  "res (auth_callback sample_env sample_config offline ''t1'' ''t2''
          \<lparr>code = Some ''C'', state = Some ''X''\<rparr> constructor pending) =
     Json 400 (ErrorBody ''Invalid state parameter'') \<and>
   res (auth_callback sample_env sample_config offline ''t1'' ''t2''
          \<lparr>code = None, state = Some ''S''\<rparr> constructor pending) =
     Json 400 (ErrorBody ''Authorization code not provided'')"
  by (simp add: auth_callback_def invalid_state_def pending_def)

text \<open>
  C3. When the provider refuses the code, the redirect sent to the browser carries the
  status and the whole response body of the provider, percent-encoded: two runs that
  differ only in that body are redirected to the same URL if and only if the bodies are
  equal.
\<close>

theorem callback_redirect_reveals_body:
  assumes "\<not> invalid_state q sess" and "code q = Some c" and "c \<noteq> []"
    and "fetch (token_request cfg c) = Resolved r" and "\<not> ok r" and "body_text r = Inr b"
    and "fetch' (token_request cfg c) = Resolved r'" and "status r' = status r"
    and "body_text r' = Inr b'"
  shows "res (auth_callback env cfg fetch t1 t2 q db sess) =
           Redirect (frontendUrl env @ ''/auth/error?message='' @
             encodeURIComponent (cross_mark @ '' Sentry token exchange failed: '' @
                                 digits (status r) @ '' '' @ b)) \<and>
         (res (auth_callback env cfg fetch t1 t2 q db sess) =
          res (auth_callback env cfg fetch' t1 t2 q db sess) \<longleftrightarrow> b = b')"
proof -
  from assms have ok': "\<not> ok r'" by (simp add: ok_def)
  have 1: "res (auth_callback env cfg fetch t1 t2 q db sess) =
      error_redirect env (Error (Whole (cross_mark @ '' Sentry token exchange failed: '' @ digits (status r) @ '' '' @ b)))"
    using assms by (intro callback_flow_error exchange_refused)
  have 2: "res (auth_callback env cfg fetch' t1 t2 q db sess) =
      error_redirect env (Error (Whole (cross_mark @ '' Sentry token exchange failed: '' @ digits (status r') @ '' '' @ b')))"
    using assms ok' by (intro callback_flow_error exchange_refused)
  show ?thesis
    unfolding 1 2 using assms(8)
    by (simp add: error_redirect_whole encodeURIComponent_inj)
qed

theorem callback_redirect_reveals_body_witness:
  "\<not> invalid_state \<lparr>code = Some ''C'', state = Some ''S''\<rparr> pending \<and>
   \<not> ok \<lparr>status = 400, statusText = ''Bad Request'', body_text = Inr ''alpha'',
           body_json = Inl (SyntaxError (Whole ''Unexpected token''))\<rparr> \<and>
   res (auth_callback sample_env sample_config (refuses ''alpha'') ''t1'' ''t2''
          \<lparr>code = Some ''C'', state = Some ''S''\<rparr> constructor pending) =
     Redirect ''http://localhost:5173/auth/error?message=%E2%9D%8C%20Sentry%20token%20exchange%20failed%3A%20400%20alpha'' \<and>
   res (auth_callback sample_env sample_config (refuses ''beta'') ''t1'' ''t2''
          \<lparr>code = Some ''C'', state = Some ''S''\<rparr> constructor pending) =
     Redirect ''http://localhost:5173/auth/error?message=%E2%9D%8C%20Sentry%20token%20exchange%20failed%3A%20400%20beta'' \<and>
   res (auth_callback sample_env sample_config (refuses ''alpha'') ''t1'' ''t2''
          \<lparr>code = Some ''C'', state = Some ''S''\<rparr> constructor pending) \<noteq>
   res (auth_callback sample_env sample_config (refuses ''beta'') ''t1'' ''t2''
          \<lparr>code = Some ''C'', state = Some ''S''\<rparr> constructor pending)"
proof -
  let ?q = "\<lparr>code = Some ''C'', state = Some ''S''\<rparr>"
  let ?ra = "\<lparr>status = 400, statusText = ''Bad Request'', body_text = Inr ''alpha'',
           body_json = Inl (SyntaxError (Whole ''Unexpected token''))\<rparr>"
  let ?rb = "\<lparr>status = 400, statusText = ''Bad Request'', body_text = Inr ''beta'',
           body_json = Inl (SyntaxError (Whole ''Unexpected token''))\<rparr>"
  have v: "\<not> invalid_state ?q pending" by (simp add: invalid_state_def pending_def)
  have c: "code ?q = Some ''C''" and n: "''C'' \<noteq> []" by simp_all
  have a: "refuses ''alpha'' (token_request sample_config ''C'') = Resolved ?ra"
    and b: "refuses ''beta'' (token_request sample_config ''C'') = Resolved ?rb"
    by (simp_all add: refuses_def)
  have nok: "\<not> ok ?ra" by (simp add: ok_def)
  have st: "status ?rb = status ?ra" by simp
  have ta: "body_text ?ra = Inr ''alpha''" and tb: "body_text ?rb = Inr ''beta''" by simp_all
  have ea: "res (auth_callback sample_env sample_config (refuses ''alpha'') ''t1'' ''t2'' ?q constructor pending) =
     Redirect ''http://localhost:5173/auth/error?message=%E2%9D%8C%20Sentry%20token%20exchange%20failed%3A%20400%20alpha''"
    by code_simp
  have eb: "res (auth_callback sample_env sample_config (refuses ''beta'') ''t1'' ''t2'' ?q constructor pending) =
     Redirect ''http://localhost:5173/auth/error?message=%E2%9D%8C%20Sentry%20token%20exchange%20failed%3A%20400%20beta''"
    by code_simp
  from callback_redirect_reveals_body[where q = ?q and sess = pending and c = "''C''"
      and fetch = "refuses ''alpha''" and fetch' = "refuses ''beta''" and cfg = sample_config
      and r = ?ra and r' = ?rb and b = "''alpha''" and b' = "''beta''" and env = sample_env and ?t1.0 = "''t1''" and ?t2.0 = "''t2''"
      and db = constructor, OF v c n a nok ta b st tb, THEN conjunct2]
  have "res (auth_callback sample_env sample_config (refuses ''alpha'') ''t1'' ''t2'' ?q constructor pending) \<noteq>
        res (auth_callback sample_env sample_config (refuses ''beta'') ''t1'' ''t2'' ?q constructor pending)"
    by simp
  with v nok ea eb show ?thesis by blast
qed
section \<open>Resolving the profile\<close>




section \<open>The fast path of the complete flow\<close>




text \<open>
  A response that embeds \<open>{id: 1, email: 5}\<close> under \<open>user\<close>: the profile resolution is
  skipped and the flow throws, it returns no profile.
\<close>

lemma completeOAuthFlow_embedded_numeric_email:
  "completeOAuthFlow sample_config embeds_numeric_email ''C'' =
     (Inl (TypeError (Whole ''userInfo.email.split is not a function'')),
      [token_request sample_config ''C''])"
  by code_simp


end
